theory Spec2Isabelle
  imports Main
begin

section \<open>JavaScript values and string operations\<close>

text \<open>
  A JavaScript string is a list of UTF-16 code units, here integers; \<open>js\<close> writes
  the units of an ASCII literal. Comparison, \<open>includes\<close>, \<open>slice\<close>, \<open>length\<close> and the
  character classes of the regular expressions of the source work on code units and are
  defined here. The case conversions \<open>toLowerCase\<close> and \<open>toUpperCase\<close> follow the Unicode
  tables of the language; they are parameters of the model (a \<open>runtime\<close>), and every
  property is proved for all of them.
\<close>

type_synonym jstring = "int list"

definition js :: "string \<Rightarrow> jstring" where
  "js s = map of_char s"

record runtime =
  rt_toLowerCase :: "jstring \<Rightarrow> jstring"
  rt_toUpperCase :: "jstring \<Rightarrow> jstring"

text \<open>
  The value of a field that holds an identifier or a label in a JSON object: absent
  (\<open>undefined\<close>), \<open>null\<close>, a string, or any other value (a number, a boolean, an array,
  an object), of which the code can observe only whether it is truthy and the property key
  it converts to. The \<open>state\<close> of a record or of a request body is a JSON scalar or
  something else.
\<close>

datatype jsv = Undefined | Null | Str jstring | Other bool jstring

datatype jsval = JUndefined | JNull | JBool bool | JNum int | JStr jstring | JOther

datatype error =
    TypeError
  | ApiError string
  | AttributeNotInPurpose jstring jstring
  | InheritedMember jstring

fun truthy :: "jsv \<Rightarrow> bool" where
  "truthy (Str s) = (s \<noteq> [])"
| "truthy (Other b k) = b"
| "truthy _ = False"

text \<open>The operator \<open>a || b\<close> on such fields.\<close>

definition js_or :: "jsv \<Rightarrow> jsv \<Rightarrow> jsv" where
  "js_or a b = (if truthy a then a else b)"

text \<open>The property key under which a value is stored in an object: \<open>obj[v]\<close>.\<close>

fun key_of :: "jsv \<Rightarrow> jstring" where
  "key_of (Str s) = s"
| "key_of (Other b k) = k"
| "key_of Undefined = js ''undefined''"
| "key_of Null = js ''null''"

text \<open>\<open>v.toLowerCase()\<close> of a truthy value: only a string has the method.\<close>

fun lower_of :: "runtime \<Rightarrow> jsv \<Rightarrow> error + jstring" where
  "lower_of rt (Str s) = Inr (rt_toLowerCase rt s)"
| "lower_of rt _ = Inl TypeError"

text \<open>The class \<open>\s\<close> of a regular expression, which is also what \<open>trim\<close> removes: the
  white space and line terminators of the language.\<close>

definition is_space :: "int \<Rightarrow> bool" where
  "is_space u =
     ((9 \<le> u \<and> u \<le> 13) \<or> u = 32 \<or> u = 160 \<or> u = 5760 \<or> (8192 \<le> u \<and> u \<le> 8202)
      \<or> u = 8232 \<or> u = 8233 \<or> u = 8239 \<or> u = 8287 \<or> u = 12288 \<or> u = 65279)"

text \<open>The classes \<open>\d\<close> (and \<open>[0-9]\<close>) and \<open>[A-Z]\<close>.\<close>

definition is_digit :: "int \<Rightarrow> bool" where
  "is_digit u = (48 \<le> u \<and> u \<le> 57)"

definition is_upper :: "int \<Rightarrow> bool" where
  "is_upper u = (65 \<le> u \<and> u \<le> 90)"

definition trim :: "jstring \<Rightarrow> jstring" where
  "trim s = rev (dropWhile is_space (rev (dropWhile is_space s)))"

text \<open>\<open>hay.includes(needle)\<close>: the needle occurs as a contiguous part of the string.\<close>

fun str_includes :: "jstring \<Rightarrow> jstring \<Rightarrow> bool" where
  "str_includes [] needle = (needle = [])"
| "str_includes (c # cs) needle =
     (take (length needle) (c # cs) = needle \<or> str_includes cs needle)"

text \<open>\<open>xs.find(p) || d\<close> on a list of strings: the first element that satisfies \<open>p\<close>
  unless it is the empty string, else \<open>d\<close>.\<close>

definition find_or :: "(jstring \<Rightarrow> bool) \<Rightarrow> jstring list \<Rightarrow> jstring \<Rightarrow> jstring" where
  "find_or p xs d = (case find p xs of Some x \<Rightarrow> (if x \<noteq> [] then x else d) | None \<Rightarrow> d)"

text \<open>Running a function that may throw over a list, as \<open>forEach\<close> and \<open>map\<close> do: the first
  exception ends the loop.\<close>

fun traverse :: "('a \<Rightarrow> error + 'b) \<Rightarrow> 'a list \<Rightarrow> error + 'b list" where
  "traverse f [] = Inr []"
| "traverse f (x # xs) =
     (case f x of
        Inl e \<Rightarrow> Inl e
      | Inr y \<Rightarrow> (case traverse f xs of Inl e \<Rightarrow> Inl e | Inr ys \<Rightarrow> Inr (y # ys)))"

text \<open>The names that every object inherits from \<open>Object.prototype\<close>. Reading such a key
  from an object literal yields the inherited member, which is truthy and has no
  \<open>attributes\<close>. The prototype is taken to carry its built-in members only.\<close>

definition inherited_keys :: "jstring list" where
  "inherited_keys = map js
     [''constructor'', ''__defineGetter__'', ''__defineSetter__'', ''hasOwnProperty'',
      ''__lookupGetter__'', ''__lookupSetter__'', ''isPrototypeOf'', ''propertyIsEnumerable'',
      ''toString'', ''valueOf'', ''__proto__'', ''toLocaleString'']"

section \<open>Consent records and purpose metadata\<close>

record nested_attr =
  na_attributeId :: jsv
  na_id :: jsv
  na_attributeName :: jsv
  na_label :: jsv
  na_name :: jsv
  na_state :: jsval

text \<open>The \<open>attributes\<close> field of a consent entry: absent or falsy, an array, or another
  value, given by its \<open>Object.values\<close>. An element of a list is an object or \<open>null\<close>
  (\<open>None\<close>); a primitive element reads like an object without fields.\<close>

datatype attrs_field =
    NoAttributes
  | AttrArray "nested_attr option list"
  | AttrObject "nested_attr option list"

record consent =
  purposeId :: jsv
  attributeId :: jsv
  attributeName :: jsv
  state :: jsval
  attributes :: attrs_field

record meta_attribute =
  attr_id :: jstring
  attr_label :: jstring
  attr_description :: jstring

record purpose_meta =
  meta_name :: jstring
  meta_description :: jstring
  meta_notice :: jstring
  meta_attributes :: "meta_attribute list"

definition marketing_meta :: purpose_meta where
  "marketing_meta = \<lparr>
     meta_name = js ''Marketing Communications'',
     meta_description = js ''Send you marketing emails and promotional offers'',
     meta_notice = js ''We will use your personal data to send you relevant marketing communications. You can withdraw this consent at any time.'',
     meta_attributes = [
       \<lparr>attr_id = js ''name'', attr_label = js ''Full Name'',
        attr_description = js ''Used to personalize communications''\<rparr>,
       \<lparr>attr_id = js ''email'', attr_label = js ''Email Address'',
        attr_description = js ''Used to send marketing emails''\<rparr>,
       \<lparr>attr_id = js ''mobile_number'', attr_label = js ''Mobile Number'',
        attr_description = js ''Used to send SMS notifications''\<rparr>]\<rparr>"

definition itr_meta :: purpose_meta where
  "itr_meta = \<lparr>
     meta_name = js ''ITR Filing Services'',
     meta_description = js ''File your Income Tax Return using our secure platform'',
     meta_notice = js ''We will use your personal and tax-related data to assist with your ITR filing in compliance with DPDP regulations. Your data is encrypted and protected.'',
     meta_attributes = [
       \<lparr>attr_id = js ''name'', attr_label = js ''Full Name'',
        attr_description = js ''Required for ITR filing''\<rparr>,
       \<lparr>attr_id = js ''email'', attr_label = js ''Email Address'',
        attr_description = js ''For filing confirmations and updates''\<rparr>,
       \<lparr>attr_id = js ''mobile_number'', attr_label = js ''Mobile Number'',
        attr_description = js ''For OTP and two-factor authentication''\<rparr>,
       \<lparr>attr_id = js ''aadhar_id'', attr_label = js ''Aadhaar Number'',
        attr_description = js ''Required for ITR filing verification''\<rparr>,
       \<lparr>attr_id = js ''pan_id'', attr_label = js ''PAN Number'',
        attr_description = js ''Required for ITR filing identification''\<rparr>]\<rparr>"

text \<open>\<open>PrivacyService.getConsentMetadata\<close> returns \<open>metadata[purposeId] || null\<close>: the entry
  of the table, an inherited member of the table object, or \<open>null\<close>.\<close>

datatype meta_result = MetaNull | MetaInherited | Meta purpose_meta

definition getConsentMetadata :: "jstring \<Rightarrow> meta_result" where
  "getConsentMetadata p =
     (if p = js ''MARKETING_COMMUNICATIONS'' then Meta marketing_meta
      else if p = js ''ITR_FILING'' then Meta itr_meta
      else if p \<in> set inherited_keys then MetaInherited
      else MetaNull)"

section \<open>Attribute resolution\<close>

text \<open>\<open>metaIds\<close>: \<open>(meta && meta.attributes) ? meta.attributes.map(a => a.id) : []\<close>.\<close>

definition metaIds_of :: "meta_result \<Rightarrow> jstring list" where
  "metaIds_of meta = (case meta of Meta m \<Rightarrow> map attr_id (meta_attributes m) | _ \<Rightarrow> [])"

text \<open>\<open>metaIds.indexOf(v) !== -1\<close>: strict equality with a string of the list.\<close>

definition is_member :: "jsv \<Rightarrow> jstring list \<Rightarrow> bool" where
  "is_member v xs = (case v of Str s \<Rightarrow> s \<in> set xs | _ \<Rightarrow> False)"

text \<open>
  The label rules of \<open>findLogicalId\<close>, the same lines in all three copies of the
  function: exact label, partial label, then the keywords in the order of the source.
  The result is \<open>None\<close> where the source falls through to its last \<open>return\<close>.
\<close>

definition labelRules ::
  "runtime \<Rightarrow> meta_attribute list \<Rightarrow> jstring list \<Rightarrow> jstring \<Rightarrow> jstring option" where
  "labelRules rt attrs metaIds lowerName =
     (case find (\<lambda>a. attr_label a \<noteq> [] \<and> rt_toLowerCase rt (attr_label a) = lowerName)
             attrs of
        Some exact \<Rightarrow> Some (attr_id exact)
      | None \<Rightarrow>
     (case find (\<lambda>a. attr_label a \<noteq> [] \<and>
                   (str_includes (rt_toLowerCase rt (attr_label a)) lowerName \<or>
                    str_includes lowerName (rt_toLowerCase rt (attr_label a)))) attrs of
        Some partial \<Rightarrow> Some (attr_id partial)
      | None \<Rightarrow>
        if str_includes lowerName (js ''email'')
          then Some (find_or (\<lambda>i. str_includes i (js ''email'')) metaIds (js ''email''))
        else if str_includes lowerName (js ''mobile'')
          then Some (find_or (\<lambda>i. str_includes i (js ''mobile'')) metaIds
                      (js ''mobile_number''))
        else if str_includes lowerName (js ''name'')
          then Some (find_or (\<lambda>i. i = js ''name'') metaIds
                      (find_or (\<lambda>i. str_includes i (js ''name'')) metaIds (js ''name'')))
        else if str_includes lowerName (js ''pan'')
          then Some (find_or (\<lambda>i. str_includes i (js ''pan'')) metaIds (js ''pan_id''))
        else if str_includes lowerName (js ''aadhaar'') \<or> str_includes lowerName (js ''aadhar'')
          then Some (find_or (\<lambda>i. str_includes i (js ''aadhar'')
                                  \<or> str_includes i (js ''aadhaar'')) metaIds
                      (js ''aadhar_id''))
        else None))"

text \<open>\<open>findLogicalId\<close> of \<open>PrivacyService.hasRequiredConsents\<close> and of
  \<open>getMissingRequiredConsents\<close> (the two copies are the same text). A truthy label that
  is not a string has no \<open>toLowerCase\<close>, and the call throws.\<close>

definition findLogicalId_service :: "runtime \<Rightarrow> meta_result \<Rightarrow> jsv \<Rightarrow> jsv \<Rightarrow> error + jsv" where
  "findLogicalId_service rt meta attrId attrName =
     (if truthy attrId \<and> is_member attrId (metaIds_of meta) then Inr attrId
      else case meta of
        Meta m \<Rightarrow>
          (if truthy attrName then
             (case lower_of rt attrName of
                Inl e \<Rightarrow> Inl e
              | Inr lowered \<Rightarrow>
                  (case labelRules rt (meta_attributes m) (metaIds_of meta) (trim lowered) of
                     Some i \<Rightarrow> Inr (Str i)
                   | None \<Rightarrow> Inr attrId))
           else Inr attrId)
      | _ \<Rightarrow> Inr attrId)"

section \<open>The external privacy API\<close>

text \<open>
  The Verify privacy SDK is outside the repository. Its three operations are parameters:
  each reads and may change the state of the server (of any type \<open>'srv\<close>) and either
  fails (the promise rejects) or returns a response. The world of a request is the
  server state together with the list of SDK calls made so far, so that a theorem can say
  which calls an operation makes.
\<close>

record consent_value =
  cv_purposeId :: jsv
  cv_attributeId :: jsv
  cv_accessTypeId :: jstring
  cv_state :: jsval

record fetch_result =
  consents :: "consent option list option"

record store_result =
  status :: jstring

text \<open>The response of the SDK's \<open>getConsentMetadata\<close>: \<open>purposes\<close>, if present, maps a
  purpose to the ids of its attributes (\<open>(purposeDef.attributes || []).map(a => a.id)\<close>).\<close>

record meta_response =
  purposes :: "(jstring \<rightharpoonup> jstring list) option"

datatype sdk_call =
    CallGetUserConsents
  | CallGetConsentMetadata "jstring list"
  | CallStoreConsents "consent_value list"

record 'srv api =
  api_getUserConsents :: "'srv \<Rightarrow> (error + fetch_result) \<times> 'srv"
  api_getConsentMetadata :: "jstring list \<Rightarrow> 'srv \<Rightarrow> (error + meta_response option) \<times> 'srv"
  api_storeConsents :: "consent_value list \<Rightarrow> 'srv \<Rightarrow> (error + store_result option) \<times> 'srv"

record 'srv world =
  calls :: "sdk_call list"
  server :: 'srv

definition sdk_getUserConsents ::
  "'srv api \<Rightarrow> 'srv world \<Rightarrow> (error + fetch_result) \<times> 'srv world" where
  "sdk_getUserConsents a w =
     (case api_getUserConsents a (server w) of
        (r, s) \<Rightarrow> (r, \<lparr>calls = calls w @ [CallGetUserConsents], server = s\<rparr>))"

definition sdk_getConsentMetadata ::
  "'srv api \<Rightarrow> jstring list \<Rightarrow> 'srv world \<Rightarrow> (error + meta_response option) \<times> 'srv world" where
  "sdk_getConsentMetadata a ps w =
     (case api_getConsentMetadata a ps (server w) of
        (r, s) \<Rightarrow> (r, \<lparr>calls = calls w @ [CallGetConsentMetadata ps], server = s\<rparr>))"

definition sdk_storeConsents ::
  "'srv api \<Rightarrow> consent_value list \<Rightarrow> 'srv world \<Rightarrow> (error + store_result option) \<times> 'srv world" where
  "sdk_storeConsents a vs w =
     (case api_storeConsents a vs (server w) of
        (r, s) \<Rightarrow> (r, \<lparr>calls = calls w @ [CallStoreConsents vs], server = s\<rparr>))"

section \<open>PrivacyService\<close>

text \<open>\<open>getUserConsents\<close>: \<open>result.consents || []\<close>; an error is logged and thrown again.\<close>

definition getUserConsents ::
  "'srv api \<Rightarrow> 'srv world \<Rightarrow> (error + consent option list) \<times> 'srv world" where
  "getUserConsents a w =
     (case sdk_getUserConsents a w of
        (Inl e, w') \<Rightarrow> (Inl e, w')
      | (Inr result, w') \<Rightarrow>
          (Inr (case consents result of Some cs \<Rightarrow> cs | None \<Rightarrow> []), w'))"

text \<open>The filter \<open>consents.filter(c => c.purposeId === purposeId)\<close> reads a field of every
  element; on a \<open>null\<close> element it throws.\<close>

definition element :: "consent option \<Rightarrow> error + consent" where
  "element c = (case c of None \<Rightarrow> Inl TypeError | Some x \<Rightarrow> Inr x)"

definition purposeConsents :: "jstring \<Rightarrow> consent option list \<Rightarrow> error + consent list" where
  "purposeConsents p cs =
     (case traverse element cs of
        Inl e \<Rightarrow> Inl e
      | Inr xs \<Rightarrow> Inr (filter (\<lambda>c. purposeId c = Str p) xs))"

text \<open>\<open>getConsentForPurpose\<close>: all entries of the purpose; an error is thrown again.\<close>

definition getConsentForPurpose ::
  "'srv api \<Rightarrow> jstring \<Rightarrow> 'srv world \<Rightarrow> (error + consent list) \<times> 'srv world" where
  "getConsentForPurpose a p w =
     (case getUserConsents a w of
        (Inl e, w') \<Rightarrow> (Inl e, w')
      | (Inr cs, w') \<Rightarrow> (purposeConsents p cs, w'))"

record consented_attribute =
  ca_attributeId :: jsv
  ca_attributeName :: jsv
  ca_state :: jsval

text \<open>The loop that flattens the entries of a purpose into \<open>consentedAttributes\<close>: an
  entry with a truthy \<open>attributeId\<close> gives one element; otherwise a non-empty
  \<open>attributes\<close> array gives one element per attribute, and throws on a \<open>null\<close> one;
  anything else gives none.\<close>

definition nestedAttribute :: "nested_attr option \<Rightarrow> error + consented_attribute" where
  "nestedAttribute x =
     (case x of
        None \<Rightarrow> Inl TypeError
      | Some a \<Rightarrow>
          Inr \<lparr>ca_attributeId = js_or (na_attributeId a) (na_id a),
               ca_attributeName = js_or (js_or (na_attributeName a) (na_label a)) (na_name a),
               ca_state = na_state a\<rparr>)"

definition entryAttributes :: "consent \<Rightarrow> error + consented_attribute list" where
  "entryAttributes entry =
     (if truthy (attributeId entry) then
        Inr [\<lparr>ca_attributeId = attributeId entry, ca_attributeName = attributeName entry,
              ca_state = state entry\<rparr>]
      else case attributes entry of
        AttrArray as \<Rightarrow> traverse nestedAttribute as
      | _ \<Rightarrow> Inr [])"

definition consentedAttributes :: "consent list \<Rightarrow> error + consented_attribute list" where
  "consentedAttributes consent =
     (case traverse entryAttributes consent of Inl e \<Rightarrow> Inl e | Inr xss \<Rightarrow> Inr (concat xss))"

text \<open>\<open>consentedLogical\<close>: pairs of \<open>logicalId\<close> and \<open>state\<close>.\<close>

definition logicalOf :: "runtime \<Rightarrow> jstring \<Rightarrow> consented_attribute \<Rightarrow> error + (jsv \<times> jsval)" where
  "logicalOf rt p ca =
     (case findLogicalId_service rt (getConsentMetadata p) (ca_attributeId ca)
             (ca_attributeName ca) of
        Inl e \<Rightarrow> Inl e
      | Inr l \<Rightarrow> Inr (l, ca_state ca))"

definition consentedLogical ::
  "runtime \<Rightarrow> jstring \<Rightarrow> consent list \<Rightarrow> error + (jsv \<times> jsval) list" where
  "consentedLogical rt p consent =
     (case consentedAttributes consent of
        Inl e \<Rightarrow> Inl e
      | Inr cas \<Rightarrow> traverse (logicalOf rt p) cas)"

text \<open>The test \<open>consentedLogical.some(ca => ca.logicalId === reqAttr && ca.state === 1)\<close>.\<close>

definition someGranted :: "(jsv \<times> jsval) list \<Rightarrow> jstring \<Rightarrow> bool" where
  "someGranted cl reqAttr = list_ex (\<lambda>ca. fst ca = Str reqAttr \<and> snd ca = JNum 1) cl"

text \<open>\<open>hasRequiredConsents\<close>: the body of the \<open>try\<close> after the entries of the purpose
  have arrived, and the whole operation. Whatever is thrown inside is caught and
  \<open>false\<close> returned.\<close>

definition hasAll :: "runtime \<Rightarrow> jstring \<Rightarrow> jstring list \<Rightarrow> consent list \<Rightarrow> error + bool" where
  "hasAll rt p requiredAttributes consent =
     (if consent = [] then Inr False
      else if requiredAttributes = [] then Inr True
      else case consentedLogical rt p consent of
             Inl e \<Rightarrow> Inl e
           | Inr cl \<Rightarrow> Inr (list_all (someGranted cl) requiredAttributes))"

definition hasRequiredConsents ::
  "runtime \<Rightarrow> 'srv api \<Rightarrow> jstring \<Rightarrow> jstring list \<Rightarrow> 'srv world
     \<Rightarrow> (error + bool) \<times> 'srv world" where
  "hasRequiredConsents rt a p requiredAttributes w =
     (case getConsentForPurpose a p w of
        (Inl e, w') \<Rightarrow> (Inr False, w')
      | (Inr consent, w') \<Rightarrow>
          (case hasAll rt p requiredAttributes consent of
             Inl e \<Rightarrow> (Inr False, w')
           | Inr b \<Rightarrow> (Inr b, w')))"

text \<open>\<open>getMissingRequiredConsents\<close>, in the same two parts. Whatever is thrown inside is
  caught and a copy of the required list returned.\<close>

definition missing ::
  "runtime \<Rightarrow> jstring \<Rightarrow> jstring list \<Rightarrow> consent list \<Rightarrow> error + jstring list" where
  "missing rt p requiredAttributes consent =
     (if consent = [] then Inr requiredAttributes
      else if requiredAttributes = [] then Inr []
      else case consentedLogical rt p consent of
             Inl e \<Rightarrow> Inl e
           | Inr cl \<Rightarrow> Inr (filter (\<lambda>reqAttr. \<not> someGranted cl reqAttr) requiredAttributes))"

definition getMissingRequiredConsents ::
  "runtime \<Rightarrow> 'srv api \<Rightarrow> jstring \<Rightarrow> jstring list \<Rightarrow> 'srv world
     \<Rightarrow> (error + jstring list) \<times> 'srv world" where
  "getMissingRequiredConsents rt a p requiredAttributes w =
     (case getConsentForPurpose a p w of
        (Inl e, w') \<Rightarrow> (Inr requiredAttributes, w')
      | (Inr consent, w') \<Rightarrow>
          (case missing rt p requiredAttributes consent of
             Inl e \<Rightarrow> (Inr requiredAttributes, w')
           | Inr m \<Rightarrow> (Inr m, w')))"

text \<open>\<open>canFileITR\<close>, and the same list in \<open>ITRController.assessAndFile\<close>.\<close>

definition itr_requiredAttributes :: "jstring list" where
  "itr_requiredAttributes =
     map js [''name'', ''email'', ''mobile_number'', ''aadhar_id'', ''pan_id'']"

definition canFileITR :: "runtime \<Rightarrow> 'srv api \<Rightarrow> 'srv world \<Rightarrow> (error + bool) \<times> 'srv world" where
  "canFileITR rt a w = hasRequiredConsents rt a (js ''ITR_FILING'') itr_requiredAttributes w"

text \<open>\<open>updateConsent\<close>: the default of \<open>state\<close> is 1. The attribute is first checked
  against the tenant's definition of the purpose; only the error of that check itself is
  thrown again, any other failure of the metadata call is logged and the consent stored
  all the same.\<close>

definition updateConsent ::
  "'srv api \<Rightarrow> jsv \<Rightarrow> jsv \<Rightarrow> jsval \<Rightarrow> 'srv world
     \<Rightarrow> (error + store_result option) \<times> 'srv world" where
  "updateConsent a purposeId' attributeId' state' w =
     (let consentValue = \<lparr>cv_purposeId = purposeId', cv_attributeId = attributeId',
                           cv_accessTypeId = js ''default'',
                           cv_state = (if state' = JUndefined then JNum 1 else state')\<rparr>;
          (metaResp, w1) = sdk_getConsentMetadata a [key_of purposeId'] w;
          purposeDef = (case metaResp of
                          Inl e \<Rightarrow> None
                        | Inr None \<Rightarrow> None
                        | Inr (Some r) \<Rightarrow>
                            (case purposes r of None \<Rightarrow> None
                             | Some ps \<Rightarrow> ps (key_of purposeId')))
      in case purposeDef of
           Some attrIds \<Rightarrow>
             (if is_member attributeId' attrIds
              then sdk_storeConsents a [consentValue] w1
              else (Inl (AttributeNotInPurpose (key_of attributeId') (key_of purposeId')), w1))
         | None \<Rightarrow> sdk_storeConsents a [consentValue] w1)"

section \<open>ConsentController\<close>

text \<open>The object \<open>purposeMeta\<close> of \<open>_buildConsentState\<close>, read at a key: one of its two
  entries, an inherited member, or \<open>undefined\<close>.\<close>

definition purposeMeta :: "jstring \<Rightarrow> meta_result" where
  "purposeMeta k =
     (if k = js ''MARKETING_COMMUNICATIONS'' then getConsentMetadata (js ''MARKETING_COMMUNICATIONS'')
      else if k = js ''ITR_FILING'' then getConsentMetadata (js ''ITR_FILING'')
      else if k \<in> set inherited_keys then MetaInherited
      else MetaNull)"

text \<open>\<open>s.replace(/\s+/g, '_')\<close>: every maximal run of whitespace becomes one underscore.\<close>

function replace_ws :: "jstring \<Rightarrow> jstring" where
  "replace_ws [] = []"
| "replace_ws (c # cs) =
     (if is_space c then 95 # replace_ws (dropWhile is_space cs) else c # replace_ws cs)"
  by pat_completeness auto
termination
  by (relation "measure length") (auto simp: less_Suc_eq_le length_dropWhile_le)

text \<open>\<open>findLogicalId\<close> of \<open>_buildConsentState\<close>. Without metadata for the purpose the
  result is \<open>attrId || (attrName && attrName.toLowerCase().replace(/\s+/g, '_')) || null\<close>,
  where the label is touched only if the id is falsy; with metadata the lines are those
  of the service.\<close>

definition findLogicalId_controller :: "runtime \<Rightarrow> jsv \<Rightarrow> jsv \<Rightarrow> jsv \<Rightarrow> error + jsv" where
  "findLogicalId_controller rt purposeId' attrId attrName =
     (case purposeMeta (key_of purposeId') of
        Meta m \<Rightarrow>
          (if truthy attrId \<and> is_member attrId (map attr_id (meta_attributes m)) then Inr attrId
           else if truthy attrName then
             (case lower_of rt attrName of
                Inl e \<Rightarrow> Inl e
              | Inr lowered \<Rightarrow>
                  (case labelRules rt (meta_attributes m) (map attr_id (meta_attributes m))
                          (trim lowered) of
                     Some i \<Rightarrow> Inr (Str i)
                   | None \<Rightarrow> Inr attrId))
           else Inr attrId)
      | _ \<Rightarrow>
          (if truthy attrId then Inr attrId
           else if truthy attrName then
             (case lower_of rt attrName of
                Inl e \<Rightarrow> Inl e
              | Inr lowered \<Rightarrow> Inr (js_or (Str (replace_ws lowered)) Null))
           else Inr Null))"

text \<open>The state object, by its own properties: purpose key to attribute key to
  boolean.\<close>

type_synonym consent_state = "jstring \<rightharpoonup> (jstring \<rightharpoonup> bool)"

text \<open>\<open>if (!state[purposeId]) state[purposeId] = {}\<close>: the read finds an own property, or
  an inherited member (truthy, so nothing is created), or nothing.\<close>

definition ensure_purpose :: "consent_state \<Rightarrow> jstring \<Rightarrow> consent_state" where
  "ensure_purpose st p =
     (if st p = None \<and> p \<notin> set inherited_keys then st(p \<mapsto> Map.empty) else st)"

text \<open>\<open>state[purposeId][logical] = v\<close>. On an own object the assignment sets the
  property, except that assigning a boolean to \<open>__proto__\<close> changes nothing. Where
  \<open>state[purposeId]\<close> is an inherited member, the assignment goes to an object shared by
  the whole program (it may throw in the strict code of the class, or change the
  prototype of every object): the model ends there with \<open>InheritedMember\<close> and gives no
  account of what follows.\<close>

definition assign :: "consent_state \<Rightarrow> jstring \<Rightarrow> jstring \<Rightarrow> bool \<Rightarrow> error + consent_state" where
  "assign st p k v =
     (case st p of
        Some m \<Rightarrow> Inr (if k = js ''__proto__'' then st else st(p \<mapsto> m(k \<mapsto> v)))
      | None \<Rightarrow> Inl (InheritedMember p))"

definition attribute_list :: "attrs_field \<Rightarrow> nested_attr option list" where
  "attribute_list f = (case f of NoAttributes \<Rightarrow> [] | AttrArray as \<Rightarrow> as | AttrObject as \<Rightarrow> as)"

fun foldM :: "('s \<Rightarrow> 'a \<Rightarrow> error + 's) \<Rightarrow> 's \<Rightarrow> 'a list \<Rightarrow> error + 's" where
  "foldM f s [] = Inr s"
| "foldM f s (x # xs) = (case f s x of Inl e \<Rightarrow> Inl e | Inr s' \<Rightarrow> foldM f s' xs)"

text \<open>The body of \<open>attributes.forEach\<close> and the body of \<open>consents.forEach\<close>.\<close>

definition processAttribute ::
  "runtime \<Rightarrow> jsv \<Rightarrow> consent_state \<Rightarrow> nested_attr option \<Rightarrow> error + consent_state" where
  "processAttribute rt purposeId' st x =
     (case x of
        None \<Rightarrow> Inl TypeError
      | Some attr \<Rightarrow>
          (case findLogicalId_controller rt purposeId'
                  (js_or (na_attributeId attr) (na_id attr))
                  (js_or (js_or (na_attributeName attr) (na_label attr)) (na_name attr)) of
             Inl e \<Rightarrow> Inl e
           | Inr logical \<Rightarrow>
               assign st (key_of purposeId') (key_of logical) (na_state attr = JNum 1)))"

definition processConsent ::
  "runtime \<Rightarrow> consent_state \<Rightarrow> consent option \<Rightarrow> error + consent_state" where
  "processConsent rt st x =
     (case x of
        None \<Rightarrow> Inl TypeError
      | Some c \<Rightarrow>
          (let st1 = ensure_purpose st (key_of (purposeId c))
           in if truthy (attributeId c) then
                (case findLogicalId_controller rt (purposeId c) (attributeId c)
                        (attributeName c) of
                   Inl e \<Rightarrow> Inl e
                 | Inr logical \<Rightarrow>
                     assign st1 (key_of (purposeId c)) (key_of logical) (state c = JNum 1))
              else foldM (processAttribute rt (purposeId c)) st1
                     (attribute_list (attributes c))))"

datatype consents_arg = ArgUndefined | ArgNull | ArgArray "consent option list"

definition initial_state :: consent_state where
  "initial_state =
     [js ''MARKETING_COMMUNICATIONS'' \<mapsto> Map.empty, js ''ITR_FILING'' \<mapsto> Map.empty]"

definition default_state :: consent_state where
  "default_state =
     [js ''MARKETING_COMMUNICATIONS'' \<mapsto>
        [js ''name'' \<mapsto> False, js ''email'' \<mapsto> False, js ''mobile_number'' \<mapsto> False],
      js ''ITR_FILING'' \<mapsto>
        [js ''name'' \<mapsto> False, js ''email'' \<mapsto> False, js ''mobile_number'' \<mapsto> False,
         js ''aadhar_id'' \<mapsto> False, js ''pan_id'' \<mapsto> False]]"

fun buildConsentState :: "runtime \<Rightarrow> consents_arg \<Rightarrow> error + consent_state" where
  "buildConsentState rt ArgUndefined = Inr default_state"
| "buildConsentState rt ArgNull = Inr default_state"
| "buildConsentState rt (ArgArray cs) =
     (if cs = [] then Inr default_state else foldM (processConsent rt) initial_state cs)"




section \<open>RegistrationController, step 2\<close>

text \<open>The two regular expressions are anchored sequences of character classes, each
  repeated a fixed number of times: \<open>/^\d{12}$/\<close> and \<open>/^[A-Z]{5}[0-9]{4}[A-Z]{1}$/\<close>.\<close>

type_synonym regex = "((int \<Rightarrow> bool) \<times> nat) list"

fun regex_test :: "regex \<Rightarrow> jstring \<Rightarrow> bool" where
  "regex_test [] s = (s = [])"
| "regex_test ((cls, n) # r) s =
     (n \<le> length s \<and> list_all cls (take n s) \<and> regex_test r (drop n s))"

definition aadhaarRegex :: regex where
  "aadhaarRegex = [(is_digit, 12)]"

definition panRegex :: regex where
  "panRegex = [(is_upper, 5), (is_digit, 4), (is_upper, 1)]"

text \<open>\<open>_validateAadhaar\<close> and \<open>_validatePAN\<close>: \<open>v && regex.test(...)\<close>. A truthy value that
  is not a string has neither \<open>replace\<close> nor \<open>toUpperCase\<close>, and the call throws.\<close>

definition validateAadhaar :: "jsv \<Rightarrow> error + bool" where
  "validateAadhaar v =
     (if \<not> truthy v then Inr False
      else case v of
        Str s \<Rightarrow> Inr (regex_test aadhaarRegex (filter (\<lambda>c. \<not> is_space c) s))
      | _ \<Rightarrow> Inl TypeError)"

definition validatePAN :: "runtime \<Rightarrow> jsv \<Rightarrow> error + bool" where
  "validatePAN rt v =
     (if \<not> truthy v then Inr False
      else case v of
        Str s \<Rightarrow> Inr (regex_test panRegex (rt_toUpperCase rt s))
      | _ \<Rightarrow> Inl TypeError)"

text \<open>\<open>s.slice(-n)\<close>: the last \<open>n\<close> code units, or all of a shorter string.\<close>

definition slice_last :: "nat \<Rightarrow> jstring \<Rightarrow> jstring" where
  "slice_last n s = drop (length s - n) s"

definition maskAadhaar :: "jsv \<Rightarrow> error + jstring" where
  "maskAadhaar v =
     (if \<not> truthy v then Inr []
      else case v of
        Str s \<Rightarrow> Inr (replicate 8 42 @ slice_last 4 (filter is_digit s))
      | _ \<Rightarrow> Inl TypeError)"

definition maskPAN :: "runtime \<Rightarrow> jsv \<Rightarrow> error + jstring" where
  "maskPAN rt v =
     (if \<not> truthy v then Inr []
      else case v of
        Str s \<Rightarrow>
          (let clean = rt_toUpperCase rt s
           in Inr (take 5 clean @ replicate 4 42 @ slice_last 1 clean))
      | _ \<Rightarrow> Inl TypeError)"

record marketing_consents =
  mc_name :: bool
  mc_email :: bool
  mc_mobile :: bool

record temp_user =
  fullName :: jsv
  email :: jsv
  mobile :: jsv
  password :: jsv
  marketingConsents :: marketing_consents
  aadhaar :: jsv
  aadhaarFull :: jsv
  pan :: jsv
  panFull :: jsv

record step2_request =
  session_tempUser :: "temp_user option"
  body_aadhaar :: jsv
  body_pan :: jsv

text \<open>A response: a redirect, or a rendered view with its status and error message.\<close>

datatype response = Redirect string | Render nat string string

text \<open>\<open>postStep2\<close> returns the response and the \<open>tempUser\<close> of the session afterwards.
  The body of its \<open>try\<close> first; an exception gives status 500 with the form of step 2.\<close>

definition step2_body ::
  "runtime \<Rightarrow> temp_user \<Rightarrow> step2_request \<Rightarrow> error + response \<times> temp_user option" where
  "step2_body rt u req =
     (case validateAadhaar (body_aadhaar req) of
        Inl e \<Rightarrow> Inl e
      | Inr okA \<Rightarrow>
          if \<not> okA then
            Inr (Render 400 ''register-step2'' ''Please enter a valid 12-digit Aadhaar number'',
                 Some u)
          else
            (case validatePAN rt (body_pan req) of
               Inl e \<Rightarrow> Inl e
             | Inr okP \<Rightarrow>
                 if \<not> okP then
                   Inr (Render 400 ''register-step2''
                          ''Please enter a valid 10-character PAN number'', Some u)
                 else
                   (case maskAadhaar (body_aadhaar req) of
                      Inl e \<Rightarrow> Inl e
                    | Inr ma \<Rightarrow>
                        (case maskPAN rt (body_pan req) of
                           Inl e \<Rightarrow> Inl e
                         | Inr mp \<Rightarrow>
                             Inr (Redirect ''/register/step3'',
                                  Some (u\<lparr>aadhaar := Str ma,
                                          aadhaarFull := body_aadhaar req,
                                          pan := Str mp,
                                          panFull := body_pan req\<rparr>))))))"

definition postStep2 :: "runtime \<Rightarrow> step2_request \<Rightarrow> response \<times> temp_user option" where
  "postStep2 rt req =
     (case session_tempUser req of
        None \<Rightarrow> (Redirect ''/register/step1'', None)
      | Some u \<Rightarrow>
          (case step2_body rt u req of
             Inl e \<Rightarrow>
               (Render 500 ''register-step2'' ''An error occurred. Please try again.'', Some u)
           | Inr r \<Rightarrow> r))"

section \<open>Notions used to state the properties\<close>

text \<open>Reading the state object at a purpose and an attribute key.\<close>

definition lookup_state :: "consent_state \<Rightarrow> jstring \<Rightarrow> jstring \<Rightarrow> bool option" where
  "lookup_state st p k = (case st p of None \<Rightarrow> None | Some m \<Rightarrow> m k)"

definition isOK :: "error + 'a \<Rightarrow> bool" where
  "isOK r = (case r of Inl e \<Rightarrow> False | Inr x \<Rightarrow> True)"

definition thrown :: "error + 'a \<Rightarrow> error option" where
  "thrown r = (case r of Inl e \<Rightarrow> Some e | Inr x \<Rightarrow> None)"

text \<open>The assignments \<open>state[purposeId][logical] = v\<close> that \<open>processConsent\<close> makes for one
  entry, in order, as pairs of key and value, where all of them can be computed; those to
  \<open>__proto__\<close> have no effect. An entry touches a purpose and a key when it has an
  assignment with effect there.\<close>

definition attributeWrite ::
  "runtime \<Rightarrow> jsv \<Rightarrow> nested_attr option \<Rightarrow> error + (jstring \<times> bool)" where
  "attributeWrite rt purposeId' x =
     (case x of
        None \<Rightarrow> Inl TypeError
      | Some attr \<Rightarrow>
          (case findLogicalId_controller rt purposeId'
                  (js_or (na_attributeId attr) (na_id attr))
                  (js_or (js_or (na_attributeName attr) (na_label attr)) (na_name attr)) of
             Inl e \<Rightarrow> Inl e
           | Inr logical \<Rightarrow> Inr (key_of logical, na_state attr = JNum 1)))"

definition entryWrites :: "runtime \<Rightarrow> consent \<Rightarrow> error + (jstring \<times> bool) list" where
  "entryWrites rt c =
     (if truthy (attributeId c) then
        (case findLogicalId_controller rt (purposeId c) (attributeId c) (attributeName c) of
           Inl e \<Rightarrow> Inl e
         | Inr logical \<Rightarrow> Inr [(key_of logical, state c = JNum 1)])
      else traverse (attributeWrite rt (purposeId c)) (attribute_list (attributes c)))"

definition effective :: "(jstring \<times> bool) list \<Rightarrow> (jstring \<times> bool) list" where
  "effective ws = filter (\<lambda>kv. fst kv \<noteq> js ''__proto__'') ws"

definition lastWrite :: "runtime \<Rightarrow> consent \<Rightarrow> jstring \<Rightarrow> bool option" where
  "lastWrite rt c k =
     (case entryWrites rt c of Inl e \<Rightarrow> None | Inr ws \<Rightarrow> map_of (rev (effective ws)) k)"

definition touches :: "runtime \<Rightarrow> consent option \<Rightarrow> jstring \<Rightarrow> jstring \<Rightarrow> bool" where
  "touches rt x p k =
     (case x of
        None \<Rightarrow> False
      | Some c \<Rightarrow> key_of (purposeId c) = p \<and> lastWrite rt c k \<noteq> None)"

text \<open>An entry grants an attribute in the gate: one of the attributes that the gate reads
  from it is mapped to the attribute by \<open>findLogicalId\<close> and has state 1. A required
  attribute resolves to a granted consent of a purpose when some entry of the purpose
  grants it.\<close>

definition grants :: "runtime \<Rightarrow> jstring \<Rightarrow> consent \<Rightarrow> jstring \<Rightarrow> bool" where
  "grants rt p c r =
     (case entryAttributes c of
        Inl e \<Rightarrow> False
      | Inr cas \<Rightarrow>
          list_ex (\<lambda>ca. findLogicalId_service rt (getConsentMetadata p) (ca_attributeId ca)
                          (ca_attributeName ca) = Inr (Str r)
                        \<and> ca_state ca = JNum 1) cas)"

definition resolves_granted :: "runtime \<Rightarrow> jstring \<Rightarrow> consent option list \<Rightarrow> jstring \<Rightarrow> bool" where
  "resolves_granted rt p cs r =
     list_ex (\<lambda>x. case x of None \<Rightarrow> False
                   | Some c \<Rightarrow> purposeId c = Str p \<and> grants rt p c r) cs"

definition has_entry :: "jstring \<Rightarrow> consent option list \<Rightarrow> bool" where
  "has_entry p cs = list_ex (\<lambda>x. case x of None \<Rightarrow> False | Some c \<Rightarrow> purposeId c = Str p) cs"

text \<open>The gate can process a fetched list for a purpose: no element is \<open>null\<close>, and for the
  entries of the purpose no attribute of an array is \<open>null\<close> and no label that reaches
  the label rules is a truthy value other than a string.\<close>

definition gate_ok :: "runtime \<Rightarrow> jstring \<Rightarrow> consent option list \<Rightarrow> bool" where
  "gate_ok rt p cs =
     (case purposeConsents p cs of
        Inl e \<Rightarrow> False
      | Inr ents \<Rightarrow> isOK (consentedLogical rt p ents))"

text \<open>An attribute of an entry resolves to no logical attribute: its id is none of the
  ids of the purpose's metadata and its label is absent or a string that matches no
  rule.\<close>

definition unresolved :: "runtime \<Rightarrow> jstring \<Rightarrow> consented_attribute \<Rightarrow> bool" where
  "unresolved rt p ca =
     (\<not> is_member (ca_attributeId ca) (metaIds_of (getConsentMetadata p))
      \<and> (case getConsentMetadata p of
            Meta m \<Rightarrow>
              (case ca_attributeName ca of
                 Str n \<Rightarrow>
                   n = [] \<or> labelRules rt (meta_attributes m) (metaIds_of (Meta m))
                               (trim (rt_toLowerCase rt n)) = None
               | Other b k \<Rightarrow> \<not> b
               | _ \<Rightarrow> True)
          | _ \<Rightarrow> True))"

definition entry_unresolved :: "runtime \<Rightarrow> jstring \<Rightarrow> consent \<Rightarrow> bool" where
  "entry_unresolved rt p c =
     (case entryAttributes c of Inl e \<Rightarrow> True | Inr cas \<Rightarrow> list_all (unresolved rt p) cas)"

text \<open>A value that is a string or falsy: the values on which no method call of the
  source can fail.\<close>

definition string_or_falsy :: "jsv \<Rightarrow> bool" where
  "string_or_falsy v = (case v of Other b k \<Rightarrow> \<not> b | _ \<Rightarrow> True)"

text \<open>An entry that \<open>_buildConsentState\<close> processes without an exception and within the
  state object: its purpose names no inherited member and its attributes are objects
  whose labels are strings or falsy.\<close>

definition plain_attribute :: "nested_attr option \<Rightarrow> bool" where
  "plain_attribute x =
     (case x of
        None \<Rightarrow> False
      | Some a \<Rightarrow> string_or_falsy (na_attributeName a) \<and> string_or_falsy (na_label a)
                  \<and> string_or_falsy (na_name a))"

definition plain_entry :: "consent option \<Rightarrow> bool" where
  "plain_entry x =
     (case x of
        None \<Rightarrow> False
      | Some c \<Rightarrow> key_of (purposeId c) \<notin> set inherited_keys
                  \<and> string_or_falsy (attributeName c)
                  \<and> list_all plain_attribute (attribute_list (attributes c)))"

section \<open>The validation of step 2 in the words of its description\<close>

text \<open>A string of exactly twelve digits, and a string of five capital letters, four
  digits and one capital letter. The Aadhaar value is matched with its whitespace removed,
  the PAN value in upper case; a missing or empty value matches nothing, nor does a value
  that is not a string.\<close>

definition twelve_digits :: "jstring \<Rightarrow> bool" where
  "twelve_digits s = (length s = 12 \<and> list_all is_digit s)"

definition pan_shaped :: "jstring \<Rightarrow> bool" where
  "pan_shaped s =
     (length s = 10 \<and> list_all is_upper (take 5 s)
      \<and> list_all is_digit (take 4 (drop 5 s)) \<and> is_upper (s ! 9))"

definition aadhaar_matches :: "jsv \<Rightarrow> bool" where
  "aadhaar_matches v =
     (case v of Str s \<Rightarrow> twelve_digits (filter (\<lambda>c. \<not> is_space c) s) | _ \<Rightarrow> False)"

definition pan_matches :: "runtime \<Rightarrow> jsv \<Rightarrow> bool" where
  "pan_matches rt v =
     (case v of Str s \<Rightarrow> s \<noteq> [] \<and> pan_shaped (rt_toUpperCase rt s) | _ \<Rightarrow> False)"

section \<open>The resolution rules as an ordered list\<close>

text \<open>
  The four rules by which a record is resolved against the attributes of a purpose's
  metadata, each yielding a logical id or nothing: (a) the id of the record is one of the
  ids; (b) the label of the record, in lower case and trimmed, equals a label in lower
  case; (c) one of the two labels is part of the other; (d) the label contains a keyword
  of the table. The resolution is the result of the first rule that yields one; a record
  without a label has rule (a) only; where no rule yields a result the id passes through.
  A label that is a truthy value other than a string cannot be put in lower case: where
  rule (a) yields nothing for its record, the resolution fails.
\<close>

definition rule_exact_id :: "meta_attribute list \<Rightarrow> jsv \<Rightarrow> jstring option" where
  "rule_exact_id attrs attrId =
     (case attrId of
        Str s \<Rightarrow> (if s \<in> set (map attr_id attrs) then Some s else None)
      | _ \<Rightarrow> None)"

definition rule_exact_label :: "runtime \<Rightarrow> meta_attribute list \<Rightarrow> jstring \<Rightarrow> jstring option" where
  "rule_exact_label rt attrs l =
     map_option attr_id (find (\<lambda>a. rt_toLowerCase rt (attr_label a) = l) attrs)"

definition rule_substring :: "runtime \<Rightarrow> meta_attribute list \<Rightarrow> jstring \<Rightarrow> jstring option" where
  "rule_substring rt attrs l =
     map_option attr_id
       (find (\<lambda>a. str_includes (rt_toLowerCase rt (attr_label a)) l
                \<or> str_includes l (rt_toLowerCase rt (attr_label a))) attrs)"

definition keyword_table :: "(jstring \<times> jstring) list" where
  "keyword_table =
     [(js ''email'', js ''email''), (js ''mobile'', js ''mobile_number''),
      (js ''name'', js ''name''), (js ''pan'', js ''pan_id''),
      (js ''aadhaar'', js ''aadhar_id''), (js ''aadhar'', js ''aadhar_id'')]"

definition rule_keyword :: "jstring \<Rightarrow> jstring option" where
  "rule_keyword l = map_option snd (find (\<lambda>(k, i). str_includes l k) keyword_table)"

fun first_match :: "jstring option list \<Rightarrow> jstring option" where
  "first_match [] = None"
| "first_match (Some i # rs) = Some i"
| "first_match (None # rs) = first_match rs"

definition resolve_in_order ::
  "runtime \<Rightarrow> meta_attribute list \<Rightarrow> jsv \<Rightarrow> jsv \<Rightarrow> error + jsv" where
  "resolve_in_order rt attrs attrId attrName =
     (case first_match
             (rule_exact_id attrs attrId #
              (case attrName of
                 Str n \<Rightarrow>
                   (if n = [] then []
                    else [rule_exact_label rt attrs (trim (rt_toLowerCase rt n)),
                          rule_substring rt attrs (trim (rt_toLowerCase rt n)),
                          rule_keyword (trim (rt_toLowerCase rt n))])
               | _ \<Rightarrow> [])) of
        Some i \<Rightarrow> Inr (Str i)
      | None \<Rightarrow> (if string_or_falsy attrName then Inr attrId else Inl TypeError))"

subsection \<open>Sample runtime, servers and entries\<close>

text \<open>
  For the concrete cases below. \<open>ascii_case\<close> converts the letters A to Z and a to z and
  nothing else; on strings of ASCII code units, which are the only ones the concrete
  cases contain, that is the case conversion of the language. The properties themselves
  are proved for every runtime. Of the three instances of the external API, two keep one
  record for each purpose and attribute id and return all records: \<open>memory_api\<close> puts a
  stored record last, \<open>newest_first_api\<close> puts it first. \<open>failing_api\<close> rejects every call.
\<close>

definition ascii_case :: runtime where
  "ascii_case = \<lparr>
     rt_toLowerCase = map (\<lambda>u. if 65 \<le> u \<and> u \<le> 90 then u + 32 else u),
     rt_toUpperCase = map (\<lambda>u. if 97 \<le> u \<and> u \<le> 122 then u - 32 else u)\<rparr>"

definition record_of :: "consent_value \<Rightarrow> consent option" where
  "record_of v = Some \<lparr>purposeId = cv_purposeId v, attributeId = cv_attributeId v,
     attributeName = Undefined, state = cv_state v, attributes = NoAttributes\<rparr>"

definition replaced_by :: "consent_value list \<Rightarrow> consent option \<Rightarrow> bool" where
  "replaced_by vs x =
     (case x of
        None \<Rightarrow> False
      | Some c \<Rightarrow>
          list_ex (\<lambda>v. cv_purposeId v = purposeId c \<and> cv_attributeId v = attributeId c) vs)"

definition memory_api :: "consent option list api" where
  "memory_api = \<lparr>
     api_getUserConsents = (\<lambda>s. (Inr \<lparr>consents = Some s\<rparr>, s)),
     api_getConsentMetadata = (\<lambda>ps s. (Inr None, s)),
     api_storeConsents = (\<lambda>vs s.
        (Inr (Some \<lparr>status = js ''success''\<rparr>),
         filter (\<lambda>c. \<not> replaced_by vs c) s @ map record_of vs))\<rparr>"

definition newest_first_api :: "consent option list api" where
  "newest_first_api = \<lparr>
     api_getUserConsents = (\<lambda>s. (Inr \<lparr>consents = Some s\<rparr>, s)),
     api_getConsentMetadata = (\<lambda>ps s. (Inr None, s)),
     api_storeConsents = (\<lambda>vs s.
        (Inr (Some \<lparr>status = js ''success''\<rparr>),
         map record_of vs @ filter (\<lambda>c. \<not> replaced_by vs c) s))\<rparr>"

definition failing_api :: "unit api" where
  "failing_api = \<lparr>
     api_getUserConsents = (\<lambda>s. (Inl (ApiError ''unreachable''), s)),
     api_getConsentMetadata = (\<lambda>ps s. (Inl (ApiError ''unreachable''), s)),
     api_storeConsents = (\<lambda>vs s. (Inl (ApiError ''unreachable''), s))\<rparr>"

definition itr_entry :: "string \<Rightarrow> jsv \<Rightarrow> int \<Rightarrow> consent" where
  "itr_entry i label st = \<lparr>purposeId = Str (js ''ITR_FILING''), attributeId = Str (js i),
     attributeName = label, state = JNum st, attributes = NoAttributes\<rparr>"

definition email_granted :: consent where
  "email_granted = itr_entry ''email'' Undefined 1"

definition email_denied :: consent where
  "email_denied = itr_entry ''email'' Undefined 2"

definition pan_granted :: consent where
  "pan_granted = itr_entry ''pan_id'' Undefined 1"

definition unknown_granted :: consent where
  "unknown_granted = itr_entry ''4711'' (Str (js ''Shoe Size'')) 1"

definition email_alias_denied :: consent where
  "email_alias_denied = itr_entry ''17'' (Str (js ''Email Address'')) 2"

text \<open>An entry that carries its one attribute, a grant of email, in an object and not in
  an array; an entry whose label is a number.\<close>

definition email_granted_in_object :: consent where
  "email_granted_in_object = \<lparr>purposeId = Str (js ''ITR_FILING''), attributeId = Undefined,
     attributeName = Undefined, state = JUndefined,
     attributes = AttrObject [Some \<lparr>na_attributeId = Str (js ''email''), na_id = Undefined,
        na_attributeName = Undefined, na_label = Undefined, na_name = Undefined,
        na_state = JNum 1\<rparr>]\<rparr>"

definition numeric_label :: consent where
  "numeric_label = itr_entry ''4711'' (Other True (js ''42'')) 1"



definition step2_user :: temp_user where
  "step2_user = \<lparr>fullName = Str (js ''Asha Rao''), email = Str (js ''asha@example.org''),
     mobile = Str (js ''9876543210''), password = Str (js ''correct horse''),
     marketingConsents = \<lparr>mc_name = True, mc_email = False, mc_mobile = False\<rparr>,
     aadhaar = Undefined, aadhaarFull = Undefined, pan = Undefined, panFull = Undefined\<rparr>"

section \<open>The gate of the service\<close>

lemma traverse_set:
  "traverse f xs = Inr ys \<Longrightarrow> y \<in> set ys \<longleftrightarrow> (\<exists>x\<in>set xs. f x = Inr y)"
  by (induction xs arbitrary: ys) (auto split: sum.splits)

lemma traverse_all_ok:
  "traverse f xs = Inr ys \<Longrightarrow> x \<in> set xs \<Longrightarrow> \<exists>y. f x = Inr y"
  by (induction xs arbitrary: ys) (auto split: sum.splits)

lemma traverse_element:
  "traverse element cs = (if None \<in> set cs then Inl TypeError else Inr (map the cs))"
  by (induction cs) (auto simp: element_def split: option.splits)

lemma purposeConsents_eq:
  "purposeConsents p cs =
     (if None \<in> set cs then Inl TypeError
      else Inr (filter (\<lambda>c. purposeId c = Str p) (map the cs)))"
  by (simp add: purposeConsents_def traverse_element)

lemma purposeConsents_set:
  assumes "purposeConsents p cs = Inr ents"
  shows "c \<in> set ents \<longleftrightarrow> Some c \<in> set cs \<and> purposeId c = Str p"
proof -
  have n: "None \<notin> set cs" and e: "ents = filter (\<lambda>c. purposeId c = Str p) (map the cs)"
    using assms by (auto simp: purposeConsents_eq split: if_splits)
  have "c \<in> the ` set cs \<longleftrightarrow> Some c \<in> set cs"
  proof
    assume "c \<in> the ` set cs"
    then obtain x where x: "x \<in> set cs" and c: "c = the x" by blast
    from n x have "x \<noteq> None" by metis
    with x c show "Some c \<in> set cs" by auto
  next
    assume "Some c \<in> set cs"
    then have "the (Some c) \<in> the ` set cs" by (rule imageI)
    then show "c \<in> the ` set cs" by simp
  qed
  then show ?thesis
    unfolding e by auto
qed

lemma consentedAttributes_set:
  assumes "consentedAttributes ents = Inr cas"
  shows "ca \<in> set cas \<longleftrightarrow> (\<exists>c\<in>set ents. \<exists>xs. entryAttributes c = Inr xs \<and> ca \<in> set xs)"
proof -
  obtain xss where t: "traverse entryAttributes ents = Inr xss" and c: "cas = concat xss"
    using assms by (auto simp: consentedAttributes_def split: sum.splits)
  have "\<And>xs. xs \<in> set xss \<longleftrightarrow> (\<exists>c\<in>set ents. entryAttributes c = Inr xs)"
    by (rule traverse_set [OF t])
  then show ?thesis
    unfolding c set_concat by blast
qed

lemma list_ex_Some:
  "list_ex (\<lambda>x. case x of None \<Rightarrow> False | Some c \<Rightarrow> P c) cs \<longleftrightarrow> (\<exists>c. Some c \<in> set cs \<and> P c)"
  by (induction cs) (auto split: option.splits)

lemma grants_iff:
  "grants rt p c r \<longleftrightarrow>
     (\<exists>xs. entryAttributes c = Inr xs \<and>
        (\<exists>ca\<in>set xs.
           findLogicalId_service rt (getConsentMetadata p) (ca_attributeId ca)
             (ca_attributeName ca) = Inr (Str r) \<and> ca_state ca = JNum 1))"
  by (cases "entryAttributes c") (auto simp: grants_def list_ex_iff)

lemma someGranted_iff:
  assumes p: "purposeConsents p cs = Inr ents"
    and l: "consentedLogical rt p ents = Inr cl"
  shows "someGranted cl r = resolves_granted rt p cs r"
proof -
  obtain cas where a: "consentedAttributes ents = Inr cas"
    and t: "traverse (logicalOf rt p) cas = Inr cl"
    using l by (auto simp: consentedLogical_def split: sum.splits)
  have "someGranted cl r \<longleftrightarrow> (\<exists>ca\<in>set cas. logicalOf rt p ca = Inr (Str r, JNum 1))"
    unfolding someGranted_def list_ex_iff using traverse_set [OF t] by force
  also have "\<dots> \<longleftrightarrow> (\<exists>ca\<in>set cas.
       findLogicalId_service rt (getConsentMetadata p) (ca_attributeId ca) (ca_attributeName ca)
         = Inr (Str r) \<and> ca_state ca = JNum 1)"
  proof -
    have "logicalOf rt p ca = Inr (Str r, JNum 1) \<longleftrightarrow>
       findLogicalId_service rt (getConsentMetadata p) (ca_attributeId ca) (ca_attributeName ca)
         = Inr (Str r) \<and> ca_state ca = JNum 1" for ca
      by (cases "findLogicalId_service rt (getConsentMetadata p) (ca_attributeId ca)
                   (ca_attributeName ca)") (auto simp: logicalOf_def)
    then show ?thesis by simp
  qed
  also have "\<dots> \<longleftrightarrow> (\<exists>c\<in>set ents. grants rt p c r)"
  proof -
    have "\<forall>ca. ca \<in> set cas \<longleftrightarrow>
            (\<exists>c\<in>set ents. \<exists>xs. entryAttributes c = Inr xs \<and> ca \<in> set xs)"
      using consentedAttributes_set [OF a] by simp
    then show ?thesis
      unfolding grants_iff by blast
  qed
  also have "\<dots> \<longleftrightarrow> resolves_granted rt p cs r"
  proof -
    have "\<forall>c. c \<in> set ents \<longleftrightarrow> Some c \<in> set cs \<and> purposeId c = Str p"
      using purposeConsents_set [OF p] by simp
    then show ?thesis
      unfolding resolves_granted_def list_ex_Some by blast
  qed
  finally show ?thesis .
qed

lemma has_entry_iff:
  assumes "purposeConsents p cs = Inr ents"
  shows "ents \<noteq> [] \<longleftrightarrow> has_entry p cs"
proof -
  have "ents \<noteq> [] \<longleftrightarrow> (\<exists>c. c \<in> set ents)"
    by (cases ents) auto
  moreover have "\<forall>c. c \<in> set ents \<longleftrightarrow> Some c \<in> set cs \<and> purposeId c = Str p"
    using purposeConsents_set [OF assms] by simp
  ultimately show ?thesis
    unfolding has_entry_def list_ex_Some by blast
qed

lemma no_entry_no_grant: "\<not> has_entry p cs \<Longrightarrow> \<not> resolves_granted rt p cs r"
  unfolding has_entry_def resolves_granted_def list_ex_Some by blast

lemma gate_after_fetch:
  assumes "getUserConsents a w = (Inr cs, w')"
  shows "hasRequiredConsents rt a p req w =
           (case purposeConsents p cs of
              Inl e \<Rightarrow> (Inr False, w')
            | Inr ents \<Rightarrow>
                (case hasAll rt p req ents of Inl e \<Rightarrow> (Inr False, w') | Inr b \<Rightarrow> (Inr b, w')))"
    and "getMissingRequiredConsents rt a p req w =
           (case purposeConsents p cs of
              Inl e \<Rightarrow> (Inr req, w')
            | Inr ents \<Rightarrow>
                (case missing rt p req ents of Inl e \<Rightarrow> (Inr req, w') | Inr m \<Rightarrow> (Inr m, w')))"
  using assms
  by (simp_all add: hasRequiredConsents_def getMissingRequiredConsents_def
        getConsentForPurpose_def split: sum.splits)

lemma gate_values:
  assumes f: "getUserConsents a w = (Inr cs, w')" and ok: "gate_ok rt p cs"
  shows "hasRequiredConsents rt a p req w =
           (Inr (has_entry p cs \<and> (\<forall>r\<in>set req. resolves_granted rt p cs r)), w')"
    and "getMissingRequiredConsents rt a p req w =
           (Inr (filter (\<lambda>r. \<not> resolves_granted rt p cs r) req), w')"
proof -
  obtain ents cl where p: "purposeConsents p cs = Inr ents"
    and l: "consentedLogical rt p ents = Inr cl"
    using ok by (auto simp: gate_ok_def isOK_def split: sum.splits)
  note e = has_entry_iff [OF p] and s = someGranted_iff [OF p l]
  have n: "\<not> has_entry p cs \<Longrightarrow> filter (\<lambda>r. \<not> resolves_granted rt p cs r) req = req"
    using no_entry_no_grant [of p cs rt] by simp
  show "hasRequiredConsents rt a p req w =
           (Inr (has_entry p cs \<and> (\<forall>r\<in>set req. resolves_granted rt p cs r)), w')"
    using e by (auto simp: gate_after_fetch [OF f] p hasAll_def l s list_all_iff)
  show "getMissingRequiredConsents rt a p req w =
           (Inr (filter (\<lambda>r. \<not> resolves_granted rt p cs r) req), w')"
    using e n by (auto simp: gate_after_fetch [OF f] p missing_def l s)
qed

lemma gate_fail_closed:
  assumes f: "getUserConsents a w = (Inr cs, w')" and bad: "\<not> gate_ok rt p cs"
    and r: "req \<noteq> [] \<or> None \<in> set cs"
  shows "hasRequiredConsents rt a p req w = (Inr False, w')"
    and "getMissingRequiredConsents rt a p req w = (Inr req, w')"
  using bad r
  by (auto simp: gate_after_fetch [OF f] gate_ok_def isOK_def hasAll_def missing_def
        purposeConsents_eq split: sum.splits if_splits)

lemma memory_fetch:
  "getUserConsents memory_api \<lparr>calls = cl, server = s\<rparr> =
     (Inr s, \<lparr>calls = cl @ [CallGetUserConsents], server = s\<rparr>)"
  by (simp add: getUserConsents_def sdk_getUserConsents_def memory_api_def)

text \<open>
  Claim C1, amended. Let the consents have been fetched. If the gate can process the list
  (no element is \<open>null\<close>, and among the entries of the purpose no attribute of an array
  is \<open>null\<close> and no label that reaches the label rules is a truthy value other than a
  string), \<open>hasRequiredConsents\<close> returns true iff the purpose has at least one entry and
  every required attribute resolves to a granted (state 1) consent of the purpose, and
  \<open>getMissingRequiredConsents\<close> returns exactly the required attributes that do not so
  resolve, in their order; so the gate returns true exactly when the missing list is
  empty, provided an attribute is required or the purpose has an entry. If the gate
  cannot process the list, it returns false and the whole required list, unless nothing
  is required and no element is \<open>null\<close>, when it returns true and the empty list.
\<close>

theorem gate_spec:
  assumes "getUserConsents a w = (Inr cs, w')"
  shows "(gate_ok rt p cs \<longrightarrow>
            hasRequiredConsents rt a p req w =
              (Inr (has_entry p cs \<and> (\<forall>r\<in>set req. resolves_granted rt p cs r)), w')
          \<and> getMissingRequiredConsents rt a p req w =
              (Inr (filter (\<lambda>r. \<not> resolves_granted rt p cs r) req), w')
          \<and> (req \<noteq> [] \<or> has_entry p cs \<longrightarrow>
                (hasRequiredConsents rt a p req w = (Inr True, w')
                   \<longleftrightarrow> getMissingRequiredConsents rt a p req w = (Inr [], w'))))
       \<and> (\<not> gate_ok rt p cs \<and> (req \<noteq> [] \<or> None \<in> set cs) \<longrightarrow>
            hasRequiredConsents rt a p req w = (Inr False, w')
          \<and> getMissingRequiredConsents rt a p req w = (Inr req, w'))
       \<and> (\<not> gate_ok rt p cs \<and> req = [] \<and> None \<notin> set cs \<longrightarrow>
            hasRequiredConsents rt a p req w = (Inr True, w')
          \<and> getMissingRequiredConsents rt a p req w = (Inr [], w'))"
proof -
  have 1: "req \<noteq> [] \<or> has_entry p cs \<longrightarrow>
          ((has_entry p cs \<and> (\<forall>r\<in>set req. resolves_granted rt p cs r))
             \<longleftrightarrow> filter (\<lambda>r. \<not> resolves_granted rt p cs r) req = [])"
  proof (cases "has_entry p cs")
    case True
    then show ?thesis by (auto simp: filter_empty_conv)
  next
    case False
    then show ?thesis
      using no_entry_no_grant [of p cs rt] by (cases req) (auto simp: filter_empty_conv)
  qed
  have 2: "\<not> gate_ok rt p cs \<and> req = [] \<and> None \<notin> set cs \<longrightarrow>
            hasRequiredConsents rt a p req w = (Inr True, w')
          \<and> getMissingRequiredConsents rt a p req w = (Inr [], w')"
    by (auto simp: gate_after_fetch [OF assms] gate_ok_def isOK_def hasAll_def missing_def
          purposeConsents_eq consentedLogical_def consentedAttributes_def split: sum.splits)
  show ?thesis
    using gate_values [OF assms, of rt p req] gate_fail_closed [OF assms, of rt p req] 1 2
    by auto
qed

lemma gate_run_facts:
  "gate_ok ascii_case (js ''ITR_FILING'') [Some email_granted, Some unknown_granted]"
  "has_entry (js ''ITR_FILING'') [Some email_granted, Some unknown_granted]"
  "resolves_granted ascii_case (js ''ITR_FILING'') [Some email_granted, Some unknown_granted]
     (js ''email'')"
  "\<not> resolves_granted ascii_case (js ''ITR_FILING'') [Some email_granted, Some unknown_granted]
     (js ''pan_id'')"
  by code_simp+

theorem gate_spec_witness:
  "hasRequiredConsents ascii_case memory_api (js ''ITR_FILING'') [js ''email'', js ''pan_id'']
       \<lparr>calls = [], server = [Some email_granted, Some unknown_granted]\<rparr> =
     (Inr False,
      \<lparr>calls = [] @ [CallGetUserConsents], server = [Some email_granted, Some unknown_granted]\<rparr>)
   \<and> getMissingRequiredConsents ascii_case memory_api (js ''ITR_FILING'')
       [js ''email'', js ''pan_id'']
       \<lparr>calls = [], server = [Some email_granted, Some unknown_granted]\<rparr> =
     (Inr [js ''pan_id''],
      \<lparr>calls = [] @ [CallGetUserConsents], server = [Some email_granted, Some unknown_granted]\<rparr>)"
proof -
  have f: "getUserConsents memory_api
             \<lparr>calls = [], server = [Some email_granted, Some unknown_granted]\<rparr> =
           (Inr [Some email_granted, Some unknown_granted],
            \<lparr>calls = [] @ [CallGetUserConsents],
               server = [Some email_granted, Some unknown_granted]\<rparr>)"
    by (rule memory_fetch)
  show ?thesis
    using gate_spec [OF f, where rt = ascii_case and p = "js ''ITR_FILING''"
            and req = "[js ''email'', js ''pan_id'']"] gate_run_facts
    by simp
qed

text \<open>
  Claim C1 as stated fails for the empty set of required attributes and an empty consent
  list: every required attribute is granted and the missing list is empty, yet the gate
  returns false (with no required attribute it reports whether the purpose has an entry).
\<close>

theorem gate_empty_counterexample:
  "fst (hasRequiredConsents ascii_case memory_api (js ''ITR_FILING'') []
          \<lparr>calls = [], server = []\<rparr>) = Inr False
   \<and> fst (getMissingRequiredConsents ascii_case memory_api (js ''ITR_FILING'') []
          \<lparr>calls = [], server = []\<rparr>) = Inr []
   \<and> list_all (resolves_granted ascii_case (js ''ITR_FILING'') []) []"
  by code_simp

text \<open>
  Claim C5. If the SDK's \<open>getUserConsents\<close> fails, \<open>hasRequiredConsents\<close> returns false and
  \<open>getMissingRequiredConsents\<close> returns the whole list of required attributes; both
  return a value, not the error, and each has made exactly one call of the SDK.
\<close>

theorem gate_fails_closed:
  assumes "api_getUserConsents a (server w) = (Inl e, s)"
  shows "hasRequiredConsents rt a p req w =
           (Inr False, \<lparr>calls = calls w @ [CallGetUserConsents], server = s\<rparr>)
       \<and> getMissingRequiredConsents rt a p req w =
           (Inr req, \<lparr>calls = calls w @ [CallGetUserConsents], server = s\<rparr>)"
  using assms
  by (simp add: hasRequiredConsents_def getMissingRequiredConsents_def getConsentForPurpose_def
        getUserConsents_def sdk_getUserConsents_def)

theorem gate_fails_closed_witness:
  "api_getUserConsents failing_api (server \<lparr>calls = [], server = ()\<rparr>)
     = (Inl (ApiError ''unreachable''), ())
   \<and> hasRequiredConsents ascii_case failing_api (js ''ITR_FILING'') itr_requiredAttributes
        \<lparr>calls = [], server = ()\<rparr> =
      (Inr False, \<lparr>calls = [CallGetUserConsents], server = ()\<rparr>)
   \<and> getMissingRequiredConsents ascii_case failing_api (js ''ITR_FILING'') itr_requiredAttributes
        \<lparr>calls = [], server = ()\<rparr> =
      (Inr (map js [''name'', ''email'', ''mobile_number'', ''aadhar_id'', ''pan_id'']),
       \<lparr>calls = [CallGetUserConsents], server = ()\<rparr>)"
proof -
  have f: "api_getUserConsents failing_api (server \<lparr>calls = [], server = ()\<rparr>)
             = (Inl (ApiError ''unreachable''), ())"
    by (simp add: failing_api_def)
  show ?thesis
    using gate_fails_closed [OF f, of ascii_case "js ''ITR_FILING''" itr_requiredAttributes] f
    by (simp add: itr_requiredAttributes_def)
qed

lemma unresolved_not_logical:
  assumes "unresolved rt p ca" and "a \<in> set (metaIds_of (getConsentMetadata p))"
  shows "findLogicalId_service rt (getConsentMetadata p) (ca_attributeId ca)
           (ca_attributeName ca) \<noteq> Inr (Str a)"
proof -
  have n: "\<not> is_member (ca_attributeId ca) (metaIds_of (getConsentMetadata p))"
    using assms(1) by (simp add: unresolved_def)
  have "findLogicalId_service rt (getConsentMetadata p) (ca_attributeId ca)
          (ca_attributeName ca) = Inr (ca_attributeId ca)"
    using assms(1) n
    by (cases "getConsentMetadata p"; cases "ca_attributeName ca")
       (auto simp: unresolved_def findLogicalId_service_def)
  moreover have "ca_attributeId ca \<noteq> Str a"
    using n assms(2) by (auto simp: is_member_def)
  ultimately show ?thesis by simp
qed

lemma entry_unresolved_no_grant:
  assumes "entry_unresolved rt p c" and "a \<in> set (metaIds_of (getConsentMetadata p))"
  shows "\<not> grants rt p c a"
  using assms unresolved_not_logical [OF _ assms(2), of rt]
  by (cases "entryAttributes c") (auto simp: entry_unresolved_def grants_def list_ex_iff list_all_iff)

lemma resolves_granted_insert:
  "resolves_granted rt p (pre @ Some r # post) a \<longleftrightarrow>
     resolves_granted rt p (pre @ post) a \<or> (purposeId r = Str p \<and> grants rt p r a)"
  by (auto simp: resolves_granted_def)

lemma itr_required_are_logical:
  "set itr_requiredAttributes = set (metaIds_of (getConsentMetadata (js ''ITR_FILING'')))"
  by (simp add: itr_requiredAttributes_def metaIds_of_def getConsentMetadata_def itr_meta_def
        js_def)

text \<open>
  Claim C2. In the ITR gate, a consent entry none of whose attributes resolves to a
  logical attribute never makes a required logical attribute count as granted: if no other
  entry of the fetched list grants the attribute, \<open>hasRequiredConsents\<close> returns false and
  \<open>getMissingRequiredConsents\<close> has the attribute in its list.
\<close>

theorem unresolved_never_grants:
  assumes fetch: "getUserConsents api w = (Inr (pre @ Some r # post), w')"
    and unres: "entry_unresolved rt (js ''ITR_FILING'') r"
    and logical: "a \<in> set itr_requiredAttributes"
    and required: "a \<in> set req"
    and others: "\<not> resolves_granted rt (js ''ITR_FILING'') (pre @ post) a"
  shows "hasRequiredConsents rt api (js ''ITR_FILING'') req w = (Inr False, w')
       \<and> (\<exists>m. getMissingRequiredConsents rt api (js ''ITR_FILING'') req w = (Inr m, w')
              \<and> a \<in> set m)"
proof (cases "gate_ok rt (js ''ITR_FILING'') (pre @ Some r # post)")
  case True
  have "\<not> grants rt (js ''ITR_FILING'') r a"
    using entry_unresolved_no_grant [OF unres] logical itr_required_are_logical by simp
  then have n: "\<not> resolves_granted rt (js ''ITR_FILING'') (pre @ Some r # post) a"
    using others by (simp add: resolves_granted_insert)
  show ?thesis
    using gate_values [OF fetch True, of req] n required by auto
next
  case False
  have "req \<noteq> []" using required by auto
  then show ?thesis
    using gate_fail_closed [OF fetch False, of req] required by simp
qed

lemma unresolved_run_facts:
  "entry_unresolved ascii_case (js ''ITR_FILING'') unknown_granted"
  "\<not> resolves_granted ascii_case (js ''ITR_FILING'') ([] @ []) (js ''pan_id'')"
  "js ''pan_id'' \<in> set itr_requiredAttributes"
  by code_simp+

theorem unresolved_never_grants_witness:
  "entry_unresolved ascii_case (js ''ITR_FILING'') unknown_granted
   \<and> js ''pan_id'' \<in> set itr_requiredAttributes
   \<and> \<not> resolves_granted ascii_case (js ''ITR_FILING'') ([] @ []) (js ''pan_id'')
   \<and> hasRequiredConsents ascii_case memory_api (js ''ITR_FILING'') itr_requiredAttributes
         \<lparr>calls = [], server = [] @ Some unknown_granted # []\<rparr> =
       (Inr False,
        \<lparr>calls = [] @ [CallGetUserConsents], server = [] @ Some unknown_granted # []\<rparr>)
   \<and> (\<exists>m. getMissingRequiredConsents ascii_case memory_api (js ''ITR_FILING'')
              itr_requiredAttributes
              \<lparr>calls = [], server = [] @ Some unknown_granted # []\<rparr> =
            (Inr m,
             \<lparr>calls = [] @ [CallGetUserConsents], server = [] @ Some unknown_granted # []\<rparr>)
          \<and> js ''pan_id'' \<in> set m)"
proof -
  have f: "getUserConsents memory_api \<lparr>calls = [], server = [] @ Some unknown_granted # []\<rparr> =
     (Inr ([] @ Some unknown_granted # []),
      \<lparr>calls = [] @ [CallGetUserConsents], server = [] @ Some unknown_granted # []\<rparr>)"
    by (rule memory_fetch)
  show ?thesis
    using unresolved_never_grants [OF f unresolved_run_facts(1) unresolved_run_facts(3)
            unresolved_run_facts(3) unresolved_run_facts(2)] unresolved_run_facts
    by blast
qed

section \<open>The state object is built by its last assignments\<close>

lemma lookup_assign:
  assumes "assign st p k v = Inr st'"
  shows "lookup_state st' q k' =
     (if q = p \<and> k' = k \<and> k \<noteq> js ''__proto__'' then Some v else lookup_state st q k')"
  using assms
  by (auto simp: lookup_state_def assign_def split: option.splits if_splits)

lemma lookup_ensure: "lookup_state (ensure_purpose st p) q k = lookup_state st q k"
  by (auto simp: lookup_state_def ensure_purpose_def split: option.splits)

lemma foldM_append:
  "foldM f s (xs @ ys) = (case foldM f s xs of Inl e \<Rightarrow> Inl e | Inr s1 \<Rightarrow> foldM f s1 ys)"
  by (induction xs arbitrary: s) (auto split: sum.splits)

lemma map_of_rev_effective_Cons:
  "map_of (rev (effective ((k, v) # ws))) k' =
     (case map_of (rev (effective ws)) k' of
        Some x \<Rightarrow> Some x
      | None \<Rightarrow> (if k' = k \<and> k \<noteq> js ''__proto__'' then Some v else None))"
  by (auto simp: effective_def map_add_def split: option.splits)

lemma lookup_attributes:
  assumes "foldM (processAttribute rt pid) st xs = Inr st'"
  shows "\<exists>ws. traverse (attributeWrite rt pid) xs = Inr ws \<and>
           (\<forall>q k. lookup_state st' q k =
              (if q = key_of pid
               then (case map_of (rev (effective ws)) k of
                       Some v \<Rightarrow> Some v | None \<Rightarrow> lookup_state st q k)
               else lookup_state st q k))"
  using assms
proof (induction xs arbitrary: st)
  case Nil
  then show ?case by (simp add: effective_def)
next
  case (Cons x xs)
  from Cons.prems obtain s1 where s1: "processAttribute rt pid st x = Inr s1"
    and r: "foldM (processAttribute rt pid) s1 xs = Inr st'"
    by (auto split: sum.splits)
  from s1 obtain attr l where x: "x = Some attr"
    and l: "findLogicalId_controller rt pid (js_or (na_attributeId attr) (na_id attr))
              (js_or (js_or (na_attributeName attr) (na_label attr)) (na_name attr)) = Inr l"
    and a: "assign st (key_of pid) (key_of l) (na_state attr = JNum 1) = Inr s1"
    by (auto simp: processAttribute_def split: option.splits sum.splits)
  have w: "attributeWrite rt pid x = Inr (key_of l, na_state attr = JNum 1)"
    by (simp add: attributeWrite_def x l)
  from Cons.IH [OF r] obtain ws where t: "traverse (attributeWrite rt pid) xs = Inr ws"
    and h: "\<forall>q k. lookup_state st' q k =
              (if q = key_of pid
               then (case map_of (rev (effective ws)) k of
                       Some v \<Rightarrow> Some v | None \<Rightarrow> lookup_state s1 q k)
               else lookup_state s1 q k)"
    by blast
  have "traverse (attributeWrite rt pid) (x # xs) = Inr ((key_of l, na_state attr = JNum 1) # ws)"
    by (simp add: w t)
  moreover have "\<forall>q k. lookup_state st' q k =
              (if q = key_of pid
               then (case map_of (rev (effective ((key_of l, na_state attr = JNum 1) # ws))) k of
                       Some v \<Rightarrow> Some v | None \<Rightarrow> lookup_state st q k)
               else lookup_state st q k)"
    unfolding map_of_rev_effective_Cons
    by (auto simp: h lookup_assign [OF a] split: option.splits)
  ultimately show ?case by blast
qed

lemma lookup_processConsent:
  assumes "processConsent rt st (Some c) = Inr st'"
  shows "isOK (entryWrites rt c)"
    and "lookup_state st' q k =
           (if touches rt (Some c) q k then lastWrite rt c k else lookup_state st q k)"
proof -
  let ?p = "key_of (purposeId c)"
  have "\<exists>ws. entryWrites rt c = Inr ws \<and>
           (\<forall>q k. lookup_state st' q k =
              (if q = ?p
               then (case map_of (rev (effective ws)) k of
                       Some v \<Rightarrow> Some v | None \<Rightarrow> lookup_state st q k)
               else lookup_state st q k))"
  proof (cases "truthy (attributeId c)")
    case True
    with assms obtain l where
      l: "findLogicalId_controller rt (purposeId c) (attributeId c) (attributeName c) = Inr l"
      and a: "assign (ensure_purpose st ?p) ?p (key_of l) (state c = JNum 1) = Inr st'"
      by (auto simp: processConsent_def Let_def split: sum.splits)
    have "entryWrites rt c = Inr [(key_of l, state c = JNum 1)]"
      by (simp add: entryWrites_def True l)
    moreover have "\<forall>q k. lookup_state st' q k =
              (if q = ?p
               then (case map_of (rev (effective [(key_of l, state c = JNum 1)])) k of
                       Some v \<Rightarrow> Some v | None \<Rightarrow> lookup_state st q k)
               else lookup_state st q k)"
      by (auto simp: lookup_assign [OF a] lookup_ensure effective_def split: option.splits)
    ultimately show ?thesis by blast
  next
    case False
    with assms have "foldM (processAttribute rt (purposeId c)) (ensure_purpose st ?p)
                       (attribute_list (attributes c)) = Inr st'"
      by (simp add: processConsent_def Let_def)
    from lookup_attributes [OF this] obtain ws where
      "traverse (attributeWrite rt (purposeId c)) (attribute_list (attributes c)) = Inr ws"
      and "\<forall>q k. lookup_state st' q k =
              (if q = ?p
               then (case map_of (rev (effective ws)) k of
                       Some v \<Rightarrow> Some v | None \<Rightarrow> lookup_state (ensure_purpose st ?p) q k)
               else lookup_state (ensure_purpose st ?p) q k)"
      by blast
    then have "entryWrites rt c = Inr ws \<and>
           (\<forall>q k. lookup_state st' q k =
              (if q = ?p
               then (case map_of (rev (effective ws)) k of
                       Some v \<Rightarrow> Some v | None \<Rightarrow> lookup_state st q k)
               else lookup_state st q k))"
      by (auto simp: entryWrites_def False lookup_ensure split: option.splits)
    then show ?thesis by blast
  qed
  then obtain ws where w: "entryWrites rt c = Inr ws"
    and h: "\<forall>q k. lookup_state st' q k =
              (if q = ?p
               then (case map_of (rev (effective ws)) k of
                       Some v \<Rightarrow> Some v | None \<Rightarrow> lookup_state st q k)
               else lookup_state st q k)"
    by blast
  show "isOK (entryWrites rt c)"
    by (simp add: w isOK_def)
  show "lookup_state st' q k =
           (if touches rt (Some c) q k then lastWrite rt c k else lookup_state st q k)"
    by (auto simp: h touches_def lastWrite_def w split: option.splits)
qed

lemma lookup_foldM_untouched:
  assumes "foldM (processConsent rt) st xs = Inr st'"
    and "\<forall>x\<in>set xs. \<not> touches rt x p k"
  shows "lookup_state st' p k = lookup_state st p k"
  using assms
proof (induction xs arbitrary: st)
  case Nil
  then show ?case by simp
next
  case (Cons x xs)
  from Cons.prems(1) obtain s1 where s1: "processConsent rt st x = Inr s1"
    and r: "foldM (processConsent rt) s1 xs = Inr st'"
    by (auto split: sum.splits)
  from s1 obtain c where x: "x = Some c"
    by (cases x) (auto simp: processConsent_def)
  have "lookup_state s1 p k = lookup_state st p k"
    using lookup_processConsent(2) [OF s1 [unfolded x], of p k] Cons.prems(2) x by simp
  moreover have "lookup_state st' p k = lookup_state s1 p k"
    using Cons.IH [OF r] Cons.prems(2) by simp
  ultimately show ?case by simp
qed

lemma lookup_last_writer:
  assumes b: "foldM (processConsent rt) st (pre @ Some c # post) = Inr st'"
    and t: "touches rt (Some c) p k"
    and n: "\<forall>x\<in>set post. \<not> touches rt x p k"
  shows "lookup_state st' p k = lastWrite rt c k"
proof -
  from b obtain s1 s2 where "foldM (processConsent rt) st pre = Inr s1"
    and c: "processConsent rt s1 (Some c) = Inr s2"
    and r: "foldM (processConsent rt) s2 post = Inr st'"
    by (auto simp: foldM_append split: sum.splits)
  have "lookup_state s2 p k = lastWrite rt c k"
    using lookup_processConsent(2) [OF c, of p k] t by simp
  then show ?thesis
    using lookup_foldM_untouched [OF r n] by simp
qed

lemma build_nonempty:
  "cs \<noteq> [] \<Longrightarrow> buildConsentState rt (ArgArray cs) = foldM (processConsent rt) initial_state cs"
  by simp

lemma dom_assign: "assign st q k v = Inr st' \<Longrightarrow> dom st' = dom st"
  by (auto simp: assign_def split: option.splits if_splits)

lemma dom_ensure: "dom st \<subseteq> dom (ensure_purpose st q)"
  by (auto simp: ensure_purpose_def)

lemma dom_attributes:
  "foldM (processAttribute rt pid) st xs = Inr st' \<Longrightarrow> dom st' = dom st"
proof (induction xs arbitrary: st)
  case Nil
  then show ?case by simp
next
  case (Cons x xs)
  from Cons.prems obtain s1 where s1: "processAttribute rt pid st x = Inr s1"
    and r: "foldM (processAttribute rt pid) s1 xs = Inr st'"
    by (auto split: sum.splits)
  from s1 have "dom s1 = dom st"
    by (auto simp: processAttribute_def dom_assign split: option.splits sum.splits)
  with Cons.IH [OF r] show ?case by simp
qed

lemma dom_processConsent:
  assumes "processConsent rt st x = Inr st'"
  shows "dom st \<subseteq> dom st'"
proof -
  from assms obtain c where x: "x = Some c"
    by (cases x) (auto simp: processConsent_def)
  have "dom st' = dom (ensure_purpose st (key_of (purposeId c)))"
    using assms unfolding x processConsent_def Let_def
    by (auto simp: dom_assign dom_attributes split: sum.splits if_splits)
  then show ?thesis
    using dom_ensure by blast
qed

lemma dom_foldM_processConsent:
  "foldM (processConsent rt) st xs = Inr st' \<Longrightarrow> dom st \<subseteq> dom st'"
proof (induction xs arbitrary: st)
  case Nil
  then show ?case by simp
next
  case (Cons x xs)
  from Cons.prems obtain s1 where s1: "processConsent rt st x = Inr s1"
    and r: "foldM (processConsent rt) s1 xs = Inr st'"
    by (auto split: sum.splits)
  show ?case
    using dom_processConsent [OF s1] Cons.IH [OF r] by blast
qed

lemma controller_returns:
  "string_or_falsy attrName \<Longrightarrow> \<exists>l. findLogicalId_controller rt pid attrId attrName = Inr l"
  by (cases attrName; cases "purposeMeta (key_of pid)")
     (auto simp: findLogicalId_controller_def string_or_falsy_def split: option.splits)

lemma js_or_string_or_falsy:
  "string_or_falsy a \<Longrightarrow> string_or_falsy b \<Longrightarrow> string_or_falsy (js_or a b)"
  by (simp add: js_or_def)

lemma assign_returns: "q \<in> dom st \<Longrightarrow> \<exists>st'. assign st q k v = Inr st'"
  by (auto simp: assign_def)

lemma attributes_return:
  assumes "list_all plain_attribute xs" and "key_of pid \<in> dom st"
  shows "\<exists>st'. foldM (processAttribute rt pid) st xs = Inr st'"
  using assms
proof (induction xs arbitrary: st)
  case Nil
  then show ?case by simp
next
  case (Cons x xs)
  from Cons.prems(1) obtain attr where x: "x = Some attr"
    and s: "string_or_falsy (js_or (js_or (na_attributeName attr) (na_label attr)) (na_name attr))"
    by (cases x) (auto simp: plain_attribute_def js_or_string_or_falsy)
  from controller_returns [OF s] obtain l where
    l: "findLogicalId_controller rt pid (js_or (na_attributeId attr) (na_id attr))
          (js_or (js_or (na_attributeName attr) (na_label attr)) (na_name attr)) = Inr l"
    by blast
  from assign_returns [OF Cons.prems(2)] obtain s1 where
    a: "assign st (key_of pid) (key_of l) (na_state attr = JNum 1) = Inr s1"
    by blast
  have p: "processAttribute rt pid st x = Inr s1"
    by (simp add: processAttribute_def x l a)
  have "key_of pid \<in> dom s1"
    using dom_assign [OF a] Cons.prems(2) by simp
  from Cons.IH [OF _ this] Cons.prems(1) show ?case
    by (simp add: p)
qed

lemma plain_entry_returns:
  assumes "plain_entry x"
  shows "\<exists>st'. processConsent rt st x = Inr st'"
proof -
  from assms obtain c where x: "x = Some c"
    and i: "key_of (purposeId c) \<notin> set inherited_keys"
    and n: "string_or_falsy (attributeName c)"
    and a: "list_all plain_attribute (attribute_list (attributes c))"
    by (cases x) (auto simp: plain_entry_def)
  let ?p = "key_of (purposeId c)"
  have d: "?p \<in> dom (ensure_purpose st ?p)"
    using i by (auto simp: ensure_purpose_def)
  show ?thesis
  proof (cases "truthy (attributeId c)")
    case True
    from controller_returns [OF n] obtain l where
      "findLogicalId_controller rt (purposeId c) (attributeId c) (attributeName c) = Inr l"
      by blast
    then show ?thesis
      using assign_returns [OF d] by (simp add: x processConsent_def Let_def True)
  next
    case False
    then show ?thesis
      using attributes_return [OF a d] by (simp add: x processConsent_def Let_def)
  qed
qed

lemma plain_entries_return:
  "list_all plain_entry xs \<Longrightarrow> \<exists>st'. foldM (processConsent rt) st xs = Inr st'"
proof (induction xs arbitrary: st)
  case Nil
  then show ?case by simp
next
  case (Cons x xs)
  then have "plain_entry x" and r: "list_all plain_entry xs" by simp_all
  from plain_entry_returns [OF this(1)] obtain s1 where "processConsent rt st x = Inr s1"
    by blast
  then show ?case
    using Cons.IH [OF r, of s1] by simp
qed

text \<open>
  Claim C9, amended. For \<open>null\<close>, \<open>undefined\<close> and the empty list \<open>_buildConsentState\<close>
  returns the object that maps name, email and mobile_number to false under
  \<open>MARKETING_COMMUNICATIONS\<close> and name, email, mobile_number, aadhar_id and pan_id to
  false under \<open>ITR_FILING\<close>. For a list it returns an object whenever every element is an
  object whose purpose names no member inherited from \<open>Object.prototype\<close> and whose
  labels, and whose attributes' labels, are strings or falsy; and every object it
  returns has both keys.
\<close>

theorem buildConsentState_keys_and_defaults:
  "(\<forall>st. buildConsentState rt x = Inr st \<longrightarrow>
      js ''MARKETING_COMMUNICATIONS'' \<in> dom st \<and> js ''ITR_FILING'' \<in> dom st)
   \<and> (list_all plain_entry cs \<longrightarrow> isOK (buildConsentState rt (ArgArray cs)))
   \<and> buildConsentState rt ArgNull = buildConsentState rt (ArgArray [])
   \<and> buildConsentState rt ArgUndefined = buildConsentState rt (ArgArray [])
   \<and> buildConsentState rt (ArgArray []) = Inr
       [js ''MARKETING_COMMUNICATIONS'' \<mapsto>
          [js ''name'' \<mapsto> False, js ''email'' \<mapsto> False, js ''mobile_number'' \<mapsto> False],
        js ''ITR_FILING'' \<mapsto>
          [js ''name'' \<mapsto> False, js ''email'' \<mapsto> False, js ''mobile_number'' \<mapsto> False,
           js ''aadhar_id'' \<mapsto> False, js ''pan_id'' \<mapsto> False]]"
proof -
  have i: "js ''MARKETING_COMMUNICATIONS'' \<in> dom initial_state"
    "js ''ITR_FILING'' \<in> dom initial_state"
    by (simp_all add: initial_state_def)
  have d: "js ''MARKETING_COMMUNICATIONS'' \<in> dom default_state"
    "js ''ITR_FILING'' \<in> dom default_state"
    by (simp_all add: default_state_def)
  have 1: "\<forall>st. buildConsentState rt x = Inr st \<longrightarrow>
      js ''MARKETING_COMMUNICATIONS'' \<in> dom st \<and> js ''ITR_FILING'' \<in> dom st"
  proof (intro allI impI)
    fix st assume b: "buildConsentState rt x = Inr st"
    show "js ''MARKETING_COMMUNICATIONS'' \<in> dom st \<and> js ''ITR_FILING'' \<in> dom st"
    proof (cases x)
      case (ArgArray xs)
      show ?thesis
      proof (cases "xs = []")
        case True
        with b ArgArray d show ?thesis by auto
      next
        case False
        with b ArgArray have "foldM (processConsent rt) initial_state xs = Inr st" by simp
        from dom_foldM_processConsent [OF this] i show ?thesis by blast
      qed
    qed (use b d in auto)
  qed
  have 2: "list_all plain_entry cs \<longrightarrow> isOK (buildConsentState rt (ArgArray cs))"
    using plain_entries_return [of cs rt initial_state] by (auto simp: isOK_def)
  show ?thesis
    using 1 2 by (simp add: default_state_def)
qed

lemma build_run_facts:
  "list_all plain_entry [Some email_granted, Some unknown_granted]"
  "map_sum id (\<lambda>st. lookup_state st (js ''ITR_FILING'') (js ''email''))
     (buildConsentState ascii_case (ArgArray [Some email_granted, Some unknown_granted]))
     = Inr (Some True)"
  by code_simp+

theorem buildConsentState_keys_and_defaults_witness:
  "list_all plain_entry [Some email_granted, Some unknown_granted]
   \<and> isOK (buildConsentState ascii_case (ArgArray [Some email_granted, Some unknown_granted]))
   \<and> map_sum id (\<lambda>st. lookup_state st (js ''ITR_FILING'') (js ''email''))
       (buildConsentState ascii_case (ArgArray [Some email_granted, Some unknown_granted]))
       = Inr (Some True)"
  using buildConsentState_keys_and_defaults
          [of ascii_case _ "[Some email_granted, Some unknown_granted]"] build_run_facts
  by blast

text \<open>
  Claim C9 as stated fails: the function is not total. It throws on a list with a \<open>null\<close>
  element, and on an entry whose label is a number when the label rules are reached.
\<close>

theorem buildConsentState_throws_counterexample:
  "thrown (buildConsentState ascii_case (ArgArray [None])) = Some TypeError
   \<and> thrown (buildConsentState ascii_case (ArgArray [Some numeric_label])) = Some TypeError"
  by code_simp

lemma metaIds_cases:
  assumes "a \<in> set (metaIds_of (getConsentMetadata p))"
  obtains m where "getConsentMetadata p = Meta m" and "purposeMeta p = Meta m"
    and "a \<in> set (map attr_id (meta_attributes m))"
    and "a \<noteq> []" and "a \<noteq> js ''__proto__''"
proof -
  from assms have p: "p = js ''MARKETING_COMMUNICATIONS'' \<or> p = js ''ITR_FILING''"
    by (auto simp: getConsentMetadata_def metaIds_of_def split: if_splits)
  have n: "js ''ITR_FILING'' \<noteq> js ''MARKETING_COMMUNICATIONS''"
    by (simp add: js_def)
  from p show thesis
  proof
    assume 1: "p = js ''MARKETING_COMMUNICATIONS''"
    have "a \<in> set (map attr_id (meta_attributes marketing_meta))"
      using assms by (simp add: 1 getConsentMetadata_def metaIds_of_def)
    moreover from this have "a \<noteq> [] \<and> a \<noteq> js ''__proto__''"
      by (auto simp: marketing_meta_def js_def)
    ultimately show thesis
      using that [of marketing_meta] by (simp add: 1 getConsentMetadata_def purposeMeta_def)
  next
    assume 2: "p = js ''ITR_FILING''"
    have "a \<in> set (map attr_id (meta_attributes itr_meta))"
      using assms n by (simp add: 2 getConsentMetadata_def metaIds_of_def)
    moreover from this have "a \<noteq> [] \<and> a \<noteq> js ''__proto__''"
      by (auto simp: itr_meta_def js_def)
    ultimately show thesis
      using that [of itr_meta] n by (simp add: 2 getConsentMetadata_def purposeMeta_def)
  qed
qed

lemma exact_id_controller:
  assumes "a \<in> set (metaIds_of (getConsentMetadata p))"
  shows "findLogicalId_controller rt (Str p) (Str a) n = Inr (Str a)"
  using assms
  by (elim metaIds_cases) (simp add: findLogicalId_controller_def is_member_def)

lemma toplevel_write:
  assumes "truthy (attributeId c)"
    and "findLogicalId_controller rt (purposeId c) (attributeId c) (attributeName c) = Inr l"
    and "key_of l \<noteq> js ''__proto__''"
  shows "lastWrite rt c (key_of l) = Some (state c = JNum 1)"
    and "touches rt (Some c) (key_of (purposeId c)) (key_of l)"
  using assms by (simp_all add: touches_def lastWrite_def entryWrites_def effective_def)

text \<open>
  Claim C3, amended. Let a list of consents hold an entry whose \<open>purposeId\<close> is a string
  and whose \<open>attributeId\<close> is one of the ids of the purpose's metadata, and let no later
  entry assign to that purpose and id. Then in every state object that
  \<open>_buildConsentState\<close> returns for the list, the id is marked granted iff the state of
  the entry is 1.
\<close>

theorem exact_id_last_assignment:
  assumes "buildConsentState rt (ArgArray (pre @ Some r # post)) = Inr st"
    and "purposeId r = Str p"
    and "attributeId r = Str a"
    and "a \<in> set (metaIds_of (getConsentMetadata p))"
    and "\<forall>x\<in>set post. \<not> touches rt x p a"
  shows "lookup_state st p a = Some (state r = JNum 1)"
proof -
  have b: "foldM (processConsent rt) initial_state (pre @ Some r # post) = Inr st"
    using assms(1) by simp
  have t: "truthy (attributeId r)"
    using assms(3,4) by (elim metaIds_cases) simp
  have f: "findLogicalId_controller rt (purposeId r) (attributeId r) (attributeName r)
             = Inr (Str a)"
    using exact_id_controller [OF assms(4)] assms(2,3) by simp
  have k: "key_of (Str a) \<noteq> js ''__proto__''"
    using assms(4) by (elim metaIds_cases) simp
  have "lastWrite rt r a = Some (state r = JNum 1)" and "touches rt (Some r) p a"
    using toplevel_write [OF t f k] assms(2) by simp_all
  then show ?thesis
    using lookup_last_writer [OF b _ assms(5)] by simp
qed

lemma exact_id_run_facts:
  "isOK (buildConsentState ascii_case
     (ArgArray ([Some email_denied] @ Some email_granted # [Some pan_granted])))"
  "purposeId email_granted = Str (js ''ITR_FILING'')"
  "attributeId email_granted = Str (js ''email'')"
  "js ''email'' \<in> set (metaIds_of (getConsentMetadata (js ''ITR_FILING'')))"
  "\<not> touches ascii_case (Some pan_granted) (js ''ITR_FILING'') (js ''email'')"
  "state email_granted = JNum 1"
  by code_simp+

theorem exact_id_last_assignment_witness:
  "isOK (buildConsentState ascii_case
     (ArgArray ([Some email_denied] @ Some email_granted # [Some pan_granted])))
   \<and> purposeId email_granted = Str (js ''ITR_FILING'')
   \<and> attributeId email_granted = Str (js ''email'')
   \<and> js ''email'' \<in> set (metaIds_of (getConsentMetadata (js ''ITR_FILING'')))
   \<and> \<not> touches ascii_case (Some pan_granted) (js ''ITR_FILING'') (js ''email'')
   \<and> map_sum id (\<lambda>st. lookup_state st (js ''ITR_FILING'') (js ''email''))
       (buildConsentState ascii_case
          (ArgArray ([Some email_denied] @ Some email_granted # [Some pan_granted])))
       = Inr (Some True)"
proof -
  note f = exact_id_run_facts
  from f(1) obtain st where b: "buildConsentState ascii_case
     (ArgArray ([Some email_denied] @ Some email_granted # [Some pan_granted])) = Inr st"
    by (auto simp: isOK_def split: sum.splits)
  have "lookup_state st (js ''ITR_FILING'') (js ''email'') = Some True"
    using exact_id_last_assignment [OF b f(2) f(3) f(4)] f(5) f(6) by simp
  with b f show ?thesis
    by simp
qed

text \<open>
  Claim C3 as stated fails: a list holds an entry with the exact id email and state 1,
  and the state object marks email as not granted, because a later entry for the same
  id has state 2.
\<close>

theorem exact_id_counterexample:
  "attributeId email_granted = Str (js ''email'')
   \<and> state email_granted = JNum 1
   \<and> map_sum id (\<lambda>st. lookup_state st (js ''ITR_FILING'') (js ''email''))
       (buildConsentState ascii_case (ArgArray [Some email_granted, Some email_denied]))
       = Inr (Some False)"
  by code_simp

lemma entry_grant_resolves:
  assumes "Some g \<in> set cs" and "purposeId g = Str p" and "grants rt p g r"
  shows "resolves_granted rt p cs r" and "has_entry p cs"
proof -
  from assms(1) obtain pre post where "cs = pre @ Some g # post"
    by (auto simp: in_set_conv_decomp)
  then show "resolves_granted rt p cs r" and "has_entry p cs"
    using assms(2,3) by (simp_all add: resolves_granted_def has_entry_def)
qed

text \<open>
  Claim C8, amended. Let the fetched list be one that the gate can process. If an entry
  of the purpose grants an attribute in the gate's reading (a top-level id, or an
  attribute of an \<open>attributes\<close> array, that \<open>findLogicalId\<close> maps to the attribute, with
  state 1), then \<open>hasRequiredConsents\<close> returns true for that attribute and
  \<open>getMissingRequiredConsents\<close> never lists it, wherever the entry stands in the list.
  In every state object that \<open>_buildConsentState\<close> returns for the same list, the
  attribute has the value of the last assignment made by the last entry that assigns to
  it. So the gate can report a grant where the state object shows a denial.
\<close>

theorem grant_wins_in_gate_last_wins_in_state:
  assumes "getUserConsents a w = (Inr cs, w')"
    and "gate_ok rt p cs"
    and "Some g \<in> set cs" and "purposeId g = Str p" and "grants rt p g r"
    and "buildConsentState rt (ArgArray cs) = Inr st"
    and "cs = pre @ Some d # post"
    and "key_of (purposeId d) = p" and "lastWrite rt d r = Some v"
    and "\<forall>x\<in>set post. \<not> touches rt x p r"
  shows "hasRequiredConsents rt a p [r] w = (Inr True, w')
       \<and> (\<exists>m. getMissingRequiredConsents rt a p req w = (Inr m, w') \<and> r \<notin> set m)
       \<and> lookup_state st p r = Some v"
proof -
  note e = entry_grant_resolves [OF assms(3,4,5)]
  have 1: "hasRequiredConsents rt a p [r] w = (Inr True, w')"
    using gate_values(1) [OF assms(1,2), of "[r]"] e by simp
  have 2: "\<exists>m. getMissingRequiredConsents rt a p req w = (Inr m, w') \<and> r \<notin> set m"
    using gate_values(2) [OF assms(1,2), of req] e(1) by simp
  have b: "foldM (processConsent rt) initial_state (pre @ Some d # post) = Inr st"
    using assms(6,7) by simp
  have t: "touches rt (Some d) p r"
    using assms(8,9) by (simp add: touches_def)
  have 3: "lookup_state st p r = Some v"
    using lookup_last_writer [OF b t assms(10)] assms(9) by simp
  from 1 2 3 show ?thesis by simp
qed

lemma grant_wins_run_facts:
  "gate_ok ascii_case (js ''ITR_FILING'') ([Some email_granted] @ Some email_denied # [])"
  "purposeId email_granted = Str (js ''ITR_FILING'')"
  "grants ascii_case (js ''ITR_FILING'') email_granted (js ''email'')"
  "isOK (buildConsentState ascii_case (ArgArray ([Some email_granted] @ Some email_denied # [])))"
  "key_of (purposeId email_denied) = js ''ITR_FILING''"
  "lastWrite ascii_case email_denied (js ''email'') = Some False"
  by code_simp+

theorem grant_wins_in_gate_last_wins_in_state_witness:
  "gate_ok ascii_case (js ''ITR_FILING'') ([Some email_granted] @ Some email_denied # [])
   \<and> grants ascii_case (js ''ITR_FILING'') email_granted (js ''email'')
   \<and> lastWrite ascii_case email_denied (js ''email'') = Some False
   \<and> hasRequiredConsents ascii_case memory_api (js ''ITR_FILING'') [js ''email'']
        \<lparr>calls = [], server = [Some email_granted] @ Some email_denied # []\<rparr> =
      (Inr True, \<lparr>calls = [] @ [CallGetUserConsents],
                  server = [Some email_granted] @ Some email_denied # []\<rparr>)
   \<and> map_sum id (\<lambda>st. lookup_state st (js ''ITR_FILING'') (js ''email''))
        (buildConsentState ascii_case (ArgArray ([Some email_granted] @ Some email_denied # [])))
      = Inr (Some False)"
proof -
  note r = grant_wins_run_facts
  have f: "getUserConsents memory_api
             \<lparr>calls = [], server = [Some email_granted] @ Some email_denied # []\<rparr> =
           (Inr ([Some email_granted] @ Some email_denied # []),
            \<lparr>calls = [] @ [CallGetUserConsents],
               server = [Some email_granted] @ Some email_denied # []\<rparr>)"
    by (rule memory_fetch)
  from r(4) obtain st where b: "buildConsentState ascii_case
      (ArgArray ([Some email_granted] @ Some email_denied # [])) = Inr st"
    by (auto simp: isOK_def split: sum.splits)
  have g: "Some email_granted \<in> set ([Some email_granted] @ Some email_denied # [])"
    by simp
  have n: "\<forall>x\<in>set []. \<not> touches ascii_case x (js ''ITR_FILING'') (js ''email'')"
    by simp
  have "hasRequiredConsents ascii_case memory_api (js ''ITR_FILING'') [js ''email'']
          \<lparr>calls = [], server = [Some email_granted] @ Some email_denied # []\<rparr> =
        (Inr True, \<lparr>calls = [] @ [CallGetUserConsents],
                    server = [Some email_granted] @ Some email_denied # []\<rparr>)
      \<and> lookup_state st (js ''ITR_FILING'') (js ''email'') = Some False"
    using grant_wins_in_gate_last_wins_in_state [OF f r(1) g r(2) r(3) b refl r(5) r(6) n]
    by blast
  with b r show ?thesis
    by simp
qed

text \<open>
  Claim C8 as stated fails: of two entries that \<open>_buildConsentState\<close> resolves to email,
  the first with state 1 and the second with state 2, the first carries its attribute
  in an object and not in an array. The gate does not read it, and reports email as
  missing.
\<close>

theorem grant_ignored_by_gate_counterexample:
  "lastWrite ascii_case email_granted_in_object (js ''email'') = Some True
   \<and> lastWrite ascii_case email_denied (js ''email'') = Some False
   \<and> fst (hasRequiredConsents ascii_case memory_api (js ''ITR_FILING'') [js ''email'']
        \<lparr>calls = [], server = [Some email_granted_in_object, Some email_denied]\<rparr>) = Inr False
   \<and> fst (getMissingRequiredConsents ascii_case memory_api (js ''ITR_FILING'') [js ''email'']
        \<lparr>calls = [], server = [Some email_granted_in_object, Some email_denied]\<rparr>)
      = Inr [js ''email'']"
  by code_simp

section \<open>Storing a consent and reading it back\<close>

lemma updateConsent_stores:
  assumes "updateConsent a p attr st w = (Inr res, w1)"
  shows "calls w1 = calls w @ [CallGetConsentMetadata [key_of p],
                               CallStoreConsents [\<lparr>cv_purposeId = p, cv_attributeId = attr,
                                  cv_accessTypeId = js ''default'',
                                  cv_state = (if st = JUndefined then JNum 1 else st)\<rparr>]]"
  using assms
  unfolding updateConsent_def sdk_getConsentMetadata_def sdk_storeConsents_def Let_def
  by (auto split: prod.splits option.splits if_splits sum.splits)





text \<open>
  Claim C6, amended. Let \<open>updateConsent\<close> succeed for a purpose, a truthy attribute id and
  a state, and let the consents fetched next contain a record with that purpose,
  attribute id and state. Let \<open>findLogicalId\<close> map the record to a key other than
  \<open>__proto__\<close>, and let no later entry of the list assign to the same purpose and key.
  Then the consent value was sent to the store, and every state object that
  \<open>_buildConsentState\<close> returns for the list maps the purpose and the key to true iff
  the stored state is 1.
\<close>

theorem store_then_fetch:
  assumes "updateConsent a pid aid st w = (Inr res, w1)"
    and "getUserConsents a w1 = (Inr (pre @ Some r # post), w2)"
    and "purposeId r = pid" and "attributeId r = aid"
    and "state r = (if st = JUndefined then JNum 1 else st)"
    and "truthy aid"
    and "buildConsentState rt (ArgArray (pre @ Some r # post)) = Inr s"
    and "findLogicalId_controller rt pid aid (attributeName r) = Inr l"
    and "key_of l \<noteq> js ''__proto__''"
    and "\<forall>x\<in>set post. \<not> touches rt x (key_of pid) (key_of l)"
  shows "CallStoreConsents [\<lparr>cv_purposeId = pid, cv_attributeId = aid,
            cv_accessTypeId = js ''default'',
            cv_state = (if st = JUndefined then JNum 1 else st)\<rparr>] \<in> set (calls w1)
       \<and> lookup_state s (key_of pid) (key_of l)
           = Some ((if st = JUndefined then JNum 1 else st) = JNum 1)"
proof -
  have b: "foldM (processConsent rt) initial_state (pre @ Some r # post) = Inr s"
    using assms(7) by simp
  have t: "truthy (attributeId r)"
    using assms(4,6) by simp
  have f: "findLogicalId_controller rt (purposeId r) (attributeId r) (attributeName r) = Inr l"
    using assms(3,4,8) by simp
  have "lastWrite rt r (key_of l) = Some (state r = JNum 1)"
    and "touches rt (Some r) (key_of pid) (key_of l)"
    using toplevel_write [OF t f assms(9)] assms(3) by simp_all
  then have "lookup_state s (key_of pid) (key_of l) = Some (state r = JNum 1)"
    using lookup_last_writer [OF b _ assms(10)] by simp
  then show ?thesis
    using updateConsent_stores [OF assms(1)] assms(5) by simp
qed

lemma memory_roundtrip_run:
  "updateConsent memory_api (Str (js ''ITR_FILING'')) (Str (js ''pan_id'')) (JNum 1)
       \<lparr>calls = [], server = [Some email_denied]\<rparr> =
     (Inr (Some \<lparr>status = js ''success''\<rparr>),
      \<lparr>calls = [CallGetConsentMetadata [js ''ITR_FILING''],
                CallStoreConsents [\<lparr>cv_purposeId = Str (js ''ITR_FILING''),
                   cv_attributeId = Str (js ''pan_id''),
                   cv_accessTypeId = js ''default'', cv_state = JNum 1\<rparr>]],
        server = [Some email_denied] @ Some pan_granted # []\<rparr>)"
  "purposeId pan_granted = Str (js ''ITR_FILING'')"
  "attributeId pan_granted = Str (js ''pan_id'')"
  "state pan_granted = (if JNum 1 = JUndefined then JNum 1 else JNum 1)"
  "truthy (Str (js ''pan_id''))"
  "isOK (buildConsentState ascii_case (ArgArray ([Some email_denied] @ Some pan_granted # [])))"
  "findLogicalId_controller ascii_case (Str (js ''ITR_FILING'')) (Str (js ''pan_id''))
     (attributeName pan_granted) = Inr (Str (js ''pan_id''))"
  "key_of (Str (js ''pan_id'')) \<noteq> js ''__proto__''"
  by code_simp+

theorem store_then_fetch_witness:
  "fst (updateConsent memory_api (Str (js ''ITR_FILING'')) (Str (js ''pan_id'')) (JNum 1)
          \<lparr>calls = [], server = [Some email_denied]\<rparr>)
       = Inr (Some \<lparr>status = js ''success''\<rparr>)
   \<and> fst (getUserConsents memory_api
          (snd (updateConsent memory_api (Str (js ''ITR_FILING'')) (Str (js ''pan_id''))
                  (JNum 1) \<lparr>calls = [], server = [Some email_denied]\<rparr>)))
       = Inr ([Some email_denied] @ Some pan_granted # [])
   \<and> findLogicalId_controller ascii_case (Str (js ''ITR_FILING'')) (Str (js ''pan_id''))
        (attributeName pan_granted) = Inr (Str (js ''pan_id''))
   \<and> map_sum id (\<lambda>st. lookup_state st (js ''ITR_FILING'') (js ''pan_id''))
        (buildConsentState ascii_case (ArgArray ([Some email_denied] @ Some pan_granted # [])))
       = Inr (Some True)"
proof -
  note m = memory_roundtrip_run
  let ?w1 = "\<lparr>calls = [CallGetConsentMetadata [js ''ITR_FILING''],
                CallStoreConsents [\<lparr>cv_purposeId = Str (js ''ITR_FILING''),
                   cv_attributeId = Str (js ''pan_id''),
                   cv_accessTypeId = js ''default'', cv_state = JNum 1\<rparr>]],
        server = [Some email_denied] @ Some pan_granted # []\<rparr>"
  have f: "getUserConsents memory_api ?w1 =
      (Inr ([Some email_denied] @ Some pan_granted # []),
       \<lparr>calls = calls ?w1 @ [CallGetUserConsents],
          server = [Some email_denied] @ Some pan_granted # []\<rparr>)"
    by (simp only: memory_fetch world.simps)
  from m(6) obtain s where b: "buildConsentState ascii_case
      (ArgArray ([Some email_denied] @ Some pan_granted # [])) = Inr s"
    by (auto simp: isOK_def split: sum.splits)
  have n: "\<forall>x\<in>set []. \<not> touches ascii_case x (key_of (Str (js ''ITR_FILING'')))
             (key_of (Str (js ''pan_id'')))"
    by simp
  have "lookup_state s (key_of (Str (js ''ITR_FILING''))) (key_of (Str (js ''pan_id'')))
          = Some ((if JNum 1 = JUndefined then JNum 1 else JNum 1) = JNum 1)"
    using store_then_fetch [OF m(1) f m(2) m(3) m(4) m(5) b m(7) m(8) n] by blast
  then have "lookup_state s (js ''ITR_FILING'') (js ''pan_id'') = Some True"
    by simp
  with b m(1) m(7) f show ?thesis
    by simp
qed

text \<open>
  Claim C6 as stated fails on a store that returns the newest record first and holds a
  record of another attribute id whose label resolves to email: the grant of email is
  stored and fetched, and email is mapped to false.
\<close>

theorem store_then_fetch_counterexample:
  "fst (updateConsent newest_first_api (Str (js ''ITR_FILING'')) (Str (js ''email'')) (JNum 1)
          \<lparr>calls = [], server = [Some email_alias_denied]\<rparr>)
       = Inr (Some \<lparr>status = js ''success''\<rparr>)
   \<and> fst (getUserConsents newest_first_api
          (snd (updateConsent newest_first_api (Str (js ''ITR_FILING'')) (Str (js ''email''))
                  (JNum 1) \<lparr>calls = [], server = [Some email_alias_denied]\<rparr>)))
       = Inr [Some email_granted, Some email_alias_denied]
   \<and> map_sum id (\<lambda>st. lookup_state st (js ''ITR_FILING'') (js ''email''))
        (buildConsentState ascii_case (ArgArray [Some email_granted, Some email_alias_denied]))
       = Inr (Some False)"
  by code_simp

section \<open>Step 2 of the registration\<close>

lemma aadhaarRegex_twelve_digits: "regex_test aadhaarRegex s = twelve_digits s"
  by (auto simp: aadhaarRegex_def twelve_digits_def)

lemma last_of_ten: "length s = 10 \<Longrightarrow> drop 9 s = [s ! 9]"
proof -
  assume l: "length s = 10"
  then have "drop 9 s = s ! 9 # drop (Suc 9) s"
    by (intro Cons_nth_drop_Suc [symmetric]) simp
  with l show ?thesis by simp
qed

lemma panRegex_pan_shaped: "regex_test panRegex s = pan_shaped s"
proof (cases "length s = 10")
  case True
  then show ?thesis
    by (simp add: panRegex_def pan_shaped_def last_of_ten)
next
  case False
  then show ?thesis
    by (auto simp: panRegex_def pan_shaped_def)
qed

lemma validateAadhaar_matches:
  "validateAadhaar v = (if string_or_falsy v then Inr (aadhaar_matches v) else Inl TypeError)"
  by (cases v) (auto simp: validateAadhaar_def aadhaar_matches_def aadhaarRegex_twelve_digits
       twelve_digits_def string_or_falsy_def)

lemma validatePAN_matches:
  "validatePAN rt v = (if string_or_falsy v then Inr (pan_matches rt v) else Inl TypeError)"
  by (cases v) (auto simp: validatePAN_def pan_matches_def panRegex_pan_shaped
       string_or_falsy_def)

lemma digit_not_space: "is_digit c \<Longrightarrow> \<not> is_space c"
  by (auto simp: is_digit_def is_space_def)

lemma maskAadhaar_valid:
  assumes "aadhaar_matches (Str s)"
  shows "maskAadhaar (Str s) = Inr (replicate 8 42 @ drop 8 (filter (\<lambda>c. \<not> is_space c) s))"
proof -
  let ?t = "filter (\<lambda>c. \<not> is_space c) s"
  have t: "length ?t = 12" and d: "\<forall>c\<in>set ?t. is_digit c"
    using assms by (simp_all add: aadhaar_matches_def twelve_digits_def list_all_iff)
  have e: "filter is_digit s = ?t"
    using d digit_not_space by (intro filter_cong) auto
  have "s \<noteq> []" using t by auto
  then show ?thesis
    using t by (simp add: maskAadhaar_def slice_last_def e)
qed

lemma maskPAN_valid:
  assumes "pan_matches rt (Str s)"
  shows "maskPAN rt (Str s) =
           Inr (take 5 (rt_toUpperCase rt s) @ replicate 4 42 @ [rt_toUpperCase rt s ! 9])"
proof -
  have t: "length (rt_toUpperCase rt s) = 10" and n: "s \<noteq> []"
    using assms by (simp_all add: pan_matches_def pan_shaped_def)
  show ?thesis
    using n t last_of_ten [OF t] by (simp add: maskPAN_def slice_last_def Let_def)
qed

lemma matches_string:
  "aadhaar_matches v \<Longrightarrow> string_or_falsy v" "pan_matches rt v \<Longrightarrow> string_or_falsy v"
  by (cases v; simp add: aadhaar_matches_def pan_matches_def string_or_falsy_def)+

text \<open>
  Claim C7, amended. Let the session hold a registration in progress (\<open>tempUser\<close>).
  Step 2 answers with status 400 and the form of step 2 iff the Aadhaar value is a
  string or falsy and, with its whitespace removed, does not match \<open>^\d{12}$\<close>, or the
  Aadhaar value matches and the PAN value is a string or falsy and, in upper case, does
  not match \<open>^[A-Z]{5}[0-9]{4}[A-Z]{1}$\<close>. It answers with status 500 and the same form
  iff the Aadhaar value is a truthy value other than a string, or the Aadhaar value
  matches and the PAN value is such a value. In both cases the session is left as it
  was. When both values match it redirects to step 3 and the session holds the masked
  Aadhaar (eight asterisks and the last four digits), the masked PAN (its first five
  characters in upper case, four asterisks and its last character) and both values as
  they were sent.
\<close>

theorem postStep2_validation:
  assumes "session_tempUser req = Some u"
  shows "((\<exists>msg. fst (postStep2 rt req) = Render 400 ''register-step2'' msg)
            \<longleftrightarrow> string_or_falsy (body_aadhaar req) \<and> \<not> aadhaar_matches (body_aadhaar req)
               \<or> aadhaar_matches (body_aadhaar req) \<and> string_or_falsy (body_pan req)
                  \<and> \<not> pan_matches rt (body_pan req))
       \<and> ((\<exists>msg. fst (postStep2 rt req) = Render 500 ''register-step2'' msg)
            \<longleftrightarrow> \<not> string_or_falsy (body_aadhaar req)
               \<or> aadhaar_matches (body_aadhaar req) \<and> \<not> string_or_falsy (body_pan req))
       \<and> (\<not> aadhaar_matches (body_aadhaar req) \<or> \<not> pan_matches rt (body_pan req)
            \<longrightarrow> snd (postStep2 rt req) = Some u)
       \<and> (aadhaar_matches (body_aadhaar req) \<and> pan_matches rt (body_pan req) \<longrightarrow>
            postStep2 rt req =
              (Redirect ''/register/step3'',
               Some (u\<lparr>aadhaar := Str (replicate 8 42 @
                                  drop 8 (filter (\<lambda>c. \<not> is_space c) (key_of (body_aadhaar req)))),
                       aadhaarFull := body_aadhaar req,
                       pan := Str (take 5 (rt_toUpperCase rt (key_of (body_pan req)))
                                   @ replicate 4 42
                                   @ [rt_toUpperCase rt (key_of (body_pan req)) ! 9]),
                       panFull := body_pan req\<rparr>)))"
proof (cases "aadhaar_matches (body_aadhaar req) \<and> pan_matches rt (body_pan req)")
  case True
  then obtain sa sp where sa: "body_aadhaar req = Str sa" and sp: "body_pan req = Str sp"
    by (auto simp: aadhaar_matches_def pan_matches_def split: jsv.splits)
  from True show ?thesis
    using assms maskAadhaar_valid [of sa] maskPAN_valid [of rt sp]
    by (simp add: postStep2_def step2_body_def validateAadhaar_matches validatePAN_matches
          sa sp string_or_falsy_def)
next
  case False
  then show ?thesis
    using assms matches_string(1) [of "body_aadhaar req"]
      matches_string(2) [of rt "body_pan req"]
    by (auto simp: postStep2_def step2_body_def validateAadhaar_matches validatePAN_matches)
qed

lemma step2_runs:
  "aadhaar_matches (Str (js ''1234 5678 9012''))"
  "pan_matches ascii_case (Str (js ''abcde1234f''))"
  "replicate 8 42 @ drop 8 (filter (\<lambda>c. \<not> is_space c) (key_of (Str (js ''1234 5678 9012''))))
     = js ''********9012''"
  "take 5 (rt_toUpperCase ascii_case (key_of (Str (js ''abcde1234f'')))) @ replicate 4 42
     @ [rt_toUpperCase ascii_case (key_of (Str (js ''abcde1234f''))) ! 9] = js ''ABCDE****F''"
  "\<not> aadhaar_matches (Str (js ''1234''))"
  by code_simp+

theorem postStep2_validation_witness:
  "postStep2 ascii_case \<lparr>session_tempUser = Some step2_user,
       body_aadhaar = Str (js ''1234 5678 9012''), body_pan = Str (js ''abcde1234f'')\<rparr> =
     (Redirect ''/register/step3'',
      Some (step2_user\<lparr>aadhaar := Str (js ''********9012''),
                       aadhaarFull := Str (js ''1234 5678 9012''),
                       pan := Str (js ''ABCDE****F''), panFull := Str (js ''abcde1234f'')\<rparr>))
   \<and> snd (postStep2 ascii_case \<lparr>session_tempUser = Some step2_user,
       body_aadhaar = Str (js ''1234''), body_pan = Str (js ''abcde1234f'')\<rparr>) = Some step2_user"
proof -
  let ?ok = "\<lparr>session_tempUser = Some step2_user, body_aadhaar = Str (js ''1234 5678 9012''),
              body_pan = Str (js ''abcde1234f'')\<rparr>"
  let ?bad = "\<lparr>session_tempUser = Some step2_user, body_aadhaar = Str (js ''1234''),
              body_pan = Str (js ''abcde1234f'')\<rparr>"
  have a: "session_tempUser ?ok = Some step2_user" and b: "session_tempUser ?bad = Some step2_user"
    by simp_all
  show ?thesis
    using postStep2_validation [OF a, of ascii_case] postStep2_validation [OF b, of ascii_case]
      step2_runs
    by simp
qed

text \<open>
  Claim C7 as stated fails when the session holds no registration in progress: matching
  values are not stored and lead to step 1, and a value that does not match leads to
  step 1 as well, not to status 400.
\<close>

theorem postStep2_no_session_counterexample:
  "aadhaar_matches (Str (js ''123456789012''))
   \<and> pan_matches ascii_case (Str (js ''ABCDE1234F''))
   \<and> postStep2 ascii_case \<lparr>session_tempUser = None, body_aadhaar = Str (js ''123456789012''),
        body_pan = Str (js ''ABCDE1234F'')\<rparr> = (Redirect ''/register/step1'', None)
   \<and> \<not> aadhaar_matches (Str (js ''1234''))
   \<and> postStep2 ascii_case \<lparr>session_tempUser = None, body_aadhaar = Str (js ''1234''),
        body_pan = Str (js ''ABCDE1234F'')\<rparr> = (Redirect ''/register/step1'', None)"
  by code_simp

section \<open>The order of the resolution rules\<close>

lemma find_nonempty_label:
  "\<forall>a\<in>set attrs. attr_label a \<noteq> [] \<Longrightarrow>
     find (\<lambda>a. attr_label a \<noteq> [] \<and> P a) attrs = find P attrs"
  by (induction attrs) auto

lemma keyword_targets_itr:
  "find_or (\<lambda>i. str_includes i (js ''email'')) (map attr_id (meta_attributes itr_meta))
     (js ''email'') = js ''email''"
  "find_or (\<lambda>i. str_includes i (js ''mobile'')) (map attr_id (meta_attributes itr_meta))
     (js ''mobile_number'') = js ''mobile_number''"
  "find_or (\<lambda>i. i = js ''name'') (map attr_id (meta_attributes itr_meta))
     (find_or (\<lambda>i. str_includes i (js ''name'')) (map attr_id (meta_attributes itr_meta))
        (js ''name'')) = js ''name''"
  "find_or (\<lambda>i. str_includes i (js ''pan'')) (map attr_id (meta_attributes itr_meta))
     (js ''pan_id'') = js ''pan_id''"
  "find_or (\<lambda>i. str_includes i (js ''aadhar'') \<or> str_includes i (js ''aadhaar''))
     (map attr_id (meta_attributes itr_meta)) (js ''aadhar_id'') = js ''aadhar_id''"
  by code_simp+

lemma keyword_targets_marketing:
  "find_or (\<lambda>i. str_includes i (js ''email'')) (map attr_id (meta_attributes marketing_meta))
     (js ''email'') = js ''email''"
  "find_or (\<lambda>i. str_includes i (js ''mobile'')) (map attr_id (meta_attributes marketing_meta))
     (js ''mobile_number'') = js ''mobile_number''"
  "find_or (\<lambda>i. i = js ''name'') (map attr_id (meta_attributes marketing_meta))
     (find_or (\<lambda>i. str_includes i (js ''name'')) (map attr_id (meta_attributes marketing_meta))
        (js ''name'')) = js ''name''"
  "find_or (\<lambda>i. str_includes i (js ''pan'')) (map attr_id (meta_attributes marketing_meta))
     (js ''pan_id'') = js ''pan_id''"
  "find_or (\<lambda>i. str_includes i (js ''aadhar'') \<or> str_includes i (js ''aadhaar''))
     (map attr_id (meta_attributes marketing_meta)) (js ''aadhar_id'') = js ''aadhar_id''"
  by code_simp+

lemma labels_nonempty:
  "\<forall>a\<in>set (meta_attributes itr_meta). attr_label a \<noteq> []"
  "\<forall>a\<in>set (meta_attributes marketing_meta). attr_label a \<noteq> []"
  by (simp_all add: itr_meta_def marketing_meta_def js_def)

lemma ids_nonempty:
  "[] \<notin> set (map attr_id (meta_attributes itr_meta))"
  "[] \<notin> set (map attr_id (meta_attributes marketing_meta))"
  by (simp_all add: itr_meta_def marketing_meta_def js_def)

lemma rule_keyword_unfold:
  "rule_keyword l =
     (if str_includes l (js ''email'') then Some (js ''email'')
      else if str_includes l (js ''mobile'') then Some (js ''mobile_number'')
      else if str_includes l (js ''name'') then Some (js ''name'')
      else if str_includes l (js ''pan'') then Some (js ''pan_id'')
      else if str_includes l (js ''aadhaar'') \<or> str_includes l (js ''aadhar'')
        then Some (js ''aadhar_id'')
      else None)"
  by (simp add: rule_keyword_def keyword_table_def)

lemma metadata_cases:
  "getConsentMetadata p = Meta m \<Longrightarrow> m = itr_meta \<or> m = marketing_meta"
  by (auto simp: getConsentMetadata_def split: if_splits)

lemma labelRules_in_order:
  assumes "m = itr_meta \<or> m = marketing_meta"
  shows "labelRules rt (meta_attributes m) (map attr_id (meta_attributes m)) l =
     first_match [rule_exact_label rt (meta_attributes m) l,
                  rule_substring rt (meta_attributes m) l, rule_keyword l]"
proof -
  have n: "\<forall>a\<in>set (meta_attributes m). attr_label a \<noteq> []"
    using assms labels_nonempty by auto
  have k: "find_or (\<lambda>i. str_includes i (js ''email'')) (map attr_id (meta_attributes m))
             (js ''email'') = js ''email''"
    "find_or (\<lambda>i. str_includes i (js ''mobile'')) (map attr_id (meta_attributes m))
       (js ''mobile_number'') = js ''mobile_number''"
    "find_or (\<lambda>i. i = js ''name'') (map attr_id (meta_attributes m))
       (find_or (\<lambda>i. str_includes i (js ''name'')) (map attr_id (meta_attributes m))
          (js ''name'')) = js ''name''"
    "find_or (\<lambda>i. str_includes i (js ''pan'')) (map attr_id (meta_attributes m))
       (js ''pan_id'') = js ''pan_id''"
    "find_or (\<lambda>i. str_includes i (js ''aadhar'') \<or> str_includes i (js ''aadhaar''))
       (map attr_id (meta_attributes m)) (js ''aadhar_id'') = js ''aadhar_id''"
    using assms keyword_targets_itr keyword_targets_marketing by auto
  show ?thesis
    unfolding labelRules_def find_nonempty_label [OF n] k rule_exact_label_def
      rule_substring_def rule_keyword_unfold
    by (simp split: option.splits)
qed

lemma exact_id_rule:
  assumes "m = itr_meta \<or> m = marketing_meta"
  shows "(truthy attrId \<and> is_member attrId (map attr_id (meta_attributes m)))
           = (rule_exact_id (meta_attributes m) attrId \<noteq> None)"
    and "rule_exact_id (meta_attributes m) attrId = Some i \<Longrightarrow> attrId = Str i"
proof -
  have e: "[] \<notin> set (map attr_id (meta_attributes m))"
    using assms ids_nonempty by auto
  show "(truthy attrId \<and> is_member attrId (map attr_id (meta_attributes m)))
           = (rule_exact_id (meta_attributes m) attrId \<noteq> None)"
    using e by (cases attrId) (force simp: rule_exact_id_def is_member_def)+
  show "rule_exact_id (meta_attributes m) attrId = Some i \<Longrightarrow> attrId = Str i"
    by (cases attrId) (auto simp: rule_exact_id_def split: if_splits)
qed

lemma service_in_order:
  assumes "getConsentMetadata p = Meta m"
  shows "findLogicalId_service rt (getConsentMetadata p) attrId attrName =
           resolve_in_order rt (meta_attributes m) attrId attrName"
proof -
  note c = metadata_cases [OF assms]
  show ?thesis
  proof (cases "rule_exact_id (meta_attributes m) attrId")
    case None
    then have na: "\<not> (truthy attrId \<and> is_member attrId (map attr_id (meta_attributes m)))"
      using exact_id_rule(1) [OF c, of attrId] by simp
    show ?thesis
      using None na
      by (cases attrName)
         (auto simp: findLogicalId_service_def assms metaIds_of_def resolve_in_order_def
            labelRules_in_order [OF c] string_or_falsy_def
            split: option.splits)
  next
    case (Some i)
    then have "truthy attrId \<and> is_member attrId (map attr_id (meta_attributes m))"
      and "attrId = Str i"
      using exact_id_rule [OF c, of attrId] by simp_all
    then show ?thesis
      using Some
      by (simp add: findLogicalId_service_def assms metaIds_of_def resolve_in_order_def)
  qed
qed

lemma controller_with_metadata:
  assumes "getConsentMetadata p = Meta m"
  shows "findLogicalId_controller rt (Str p) attrId attrName =
           findLogicalId_service rt (getConsentMetadata p) attrId attrName"
proof -
  have "purposeMeta p = Meta m"
    using assms by (auto simp: purposeMeta_def getConsentMetadata_def split: if_splits)
  then show ?thesis
    using assms
    by (simp add: findLogicalId_controller_def findLogicalId_service_def metaIds_of_def
          split: sum.splits)
qed

text \<open>
  Claim C4, amended. For a purpose that has metadata, \<open>findLogicalId\<close> of the service
  and of the controller both apply the rules in the fixed order (a) exact id, (b) exact
  label without regard to case, (c) partial label in either direction, (d) keywords
  (email, mobile to mobile_number, name, pan to pan_id, aadhaar and aadhar to aadhar_id),
  each rule only when the earlier ones yield nothing, and pass the id through when none
  does; where rule (a) yields nothing and the label is a truthy value other than a
  string, both throw.
\<close>

theorem findLogicalId_rule_order:
  assumes "getConsentMetadata p = Meta m"
  shows "findLogicalId_service rt (getConsentMetadata p) attrId attrName =
           resolve_in_order rt (meta_attributes m) attrId attrName
       \<and> findLogicalId_controller rt (Str p) attrId attrName =
           resolve_in_order rt (meta_attributes m) attrId attrName"
  using service_in_order [OF assms] controller_with_metadata [OF assms] by simp

lemma rule_order_runs:
  "getConsentMetadata (js ''ITR_FILING'') = Meta itr_meta"
  "resolve_in_order ascii_case (meta_attributes itr_meta) (Str (js ''email''))
     (Str (js ''PAN Number'')) = Inr (Str (js ''email''))"
  "resolve_in_order ascii_case (meta_attributes itr_meta) (Str (js ''17''))
     (Str (js '' EMAIL Address '')) = Inr (Str (js ''email''))"
  "resolve_in_order ascii_case (meta_attributes itr_meta) (Str (js ''17''))
     (Str (js ''Mobile'')) = Inr (Str (js ''mobile_number''))"
  "resolve_in_order ascii_case (meta_attributes itr_meta) (Str (js ''17''))
     (Str (js ''Your PAN'')) = Inr (Str (js ''pan_id''))"
  "resolve_in_order ascii_case (meta_attributes itr_meta) (Str (js ''17''))
     (Str (js ''Aadhar card'')) = Inr (Str (js ''aadhar_id''))"
  "resolve_in_order ascii_case (meta_attributes itr_meta) (Str (js ''17''))
     (Str (js ''Shoe Size'')) = Inr (Str (js ''17''))"
  "resolve_in_order ascii_case (meta_attributes itr_meta) (Str (js ''17''))
     (Other True (js ''42'')) = Inl TypeError"
  by code_simp+

theorem findLogicalId_rule_order_witness:
  "getConsentMetadata (js ''ITR_FILING'') = Meta itr_meta
   \<and> findLogicalId_service ascii_case (getConsentMetadata (js ''ITR_FILING''))
        (Str (js ''email'')) (Str (js ''PAN Number'')) = Inr (Str (js ''email''))
   \<and> findLogicalId_service ascii_case (getConsentMetadata (js ''ITR_FILING''))
        (Str (js ''17'')) (Str (js '' EMAIL Address '')) = Inr (Str (js ''email''))
   \<and> findLogicalId_service ascii_case (getConsentMetadata (js ''ITR_FILING''))
        (Str (js ''17'')) (Str (js ''Mobile'')) = Inr (Str (js ''mobile_number''))
   \<and> findLogicalId_controller ascii_case (Str (js ''ITR_FILING''))
        (Str (js ''17'')) (Str (js ''Your PAN'')) = Inr (Str (js ''pan_id''))
   \<and> findLogicalId_controller ascii_case (Str (js ''ITR_FILING''))
        (Str (js ''17'')) (Str (js ''Aadhar card'')) = Inr (Str (js ''aadhar_id''))
   \<and> findLogicalId_controller ascii_case (Str (js ''ITR_FILING''))
        (Str (js ''17'')) (Str (js ''Shoe Size'')) = Inr (Str (js ''17''))
   \<and> findLogicalId_controller ascii_case (Str (js ''ITR_FILING''))
        (Str (js ''17'')) (Other True (js ''42'')) = Inl TypeError"
proof -
  note r = rule_order_runs
  note t = findLogicalId_rule_order [OF r(1), where rt = ascii_case]
  show ?thesis
    using t [of "Str (js ''email'')" "Str (js ''PAN Number'')"]
      t [of "Str (js ''17'')" "Str (js '' EMAIL Address '')"]
      t [of "Str (js ''17'')" "Str (js ''Mobile'')"]
      t [of "Str (js ''17'')" "Str (js ''Your PAN'')"]
      t [of "Str (js ''17'')" "Str (js ''Aadhar card'')"]
      t [of "Str (js ''17'')" "Str (js ''Shoe Size'')"]
      t [of "Str (js ''17'')" "Other True (js ''42'')"] r
    by simp
qed

text \<open>
  Claim C4 as stated fails for a purpose without metadata: rule (d) maps the label
  Email to email, and both copies of the function return the id of the record.
\<close>

theorem findLogicalId_no_metadata_counterexample:
  "getConsentMetadata (js ''NEWSLETTER'') = MetaNull
   \<and> resolve_in_order ascii_case [] (Str (js ''17'')) (Str (js ''Email''))
       = Inr (Str (js ''email''))
   \<and> findLogicalId_service ascii_case (getConsentMetadata (js ''NEWSLETTER''))
       (Str (js ''17'')) (Str (js ''Email'')) = Inr (Str (js ''17''))
   \<and> findLogicalId_controller ascii_case (Str (js ''NEWSLETTER''))
       (Str (js ''17'')) (Str (js ''Email'')) = Inr (Str (js ''17''))"
  by code_simp

end
